theory Spec2Isabelle
  imports Main "HOL-Library.Sublist" "HOL-Library.Multiset" "HOL-Library.Code_Target_Nat"
begin

section \<open>Overview\<close>

text \<open>
  The theory embeds three sources of the commit-message generator. The diff preprocessor is
  the first part of \<^verbatim>\<open>src/src/preprocess.ts\<close> (\<^verbatim>\<open>parseDiffLines\<close>, \<^verbatim>\<open>summarizeLockfile\<close>).
  The prompt builder and the output normalizer exist twice: the text of a web view
  \<^verbatim>\<open>main.ts\<close> that follows the preprocessor in the same file (from line 681 on) returns a
  single line and has a minimum subject length of 300 for large changes; its functions
  carry the suffix \<open>1\<close> here where the two differ. \<^verbatim>\<open>src/src/webview/main.ts\<close> returns a
  subject and a body and bounds the subject by 80 and 120; its functions carry the suffix
  \<open>2\<close>. Functions without a suffix read the same in both files.
\<close>

section \<open>Strings of UTF-16 code units\<close>

text \<open>
  The sources are TypeScript: a string is a sequence of UTF-16 code units and
  \<^verbatim>\<open>length\<close>, \<^verbatim>\<open>slice\<close>, \<^verbatim>\<open>indexOf\<close> count code units. The separators of the
  normalizer (the em dash U+2014, the full-width comma U+FF0C) and the Chinese literals
  lie outside one byte, so a string is modelled as a list of code-unit numbers. The
  function \<open>js\<close> writes an ASCII literal of the source.
\<close>

type_synonym jsstr = "nat list"

definition js :: "string \<Rightarrow> jsstr" where
  "js s = map of_char s"

text \<open>\<^verbatim>\<open>\s\<close> of a regular expression and the characters \<^verbatim>\<open>trim()\<close> removes: ECMAScript
  WhiteSpace and LineTerminator.\<close>

definition isSpace :: "nat \<Rightarrow> bool" where
  "isSpace c \<longleftrightarrow>
     (9 \<le> c \<and> c \<le> 13) \<or> c = 32 \<or> c = 160 \<or> c = 5760 \<or> (8192 \<le> c \<and> c \<le> 8202) \<or>
     c = 8232 \<or> c = 8233 \<or> c = 8239 \<or> c = 8287 \<or> c = 12288 \<or> c = 65279"

definition isDigit :: "nat \<Rightarrow> bool" where
  "isDigit c \<longleftrightarrow> 48 \<le> c \<and> c \<le> 57"

definition isLowerAlnum :: "nat \<Rightarrow> bool" where
  "isLowerAlnum c \<longleftrightarrow> (97 \<le> c \<and> c \<le> 122) \<or> isDigit c"

definition isAlnum :: "nat \<Rightarrow> bool" where
  "isAlnum c \<longleftrightarrow> (65 \<le> c \<and> c \<le> 90) \<or> isLowerAlnum c"

text \<open>\<^verbatim>\<open>\w\<close>: letters, digits and the underscore.\<close>

definition isWord :: "nat \<Rightarrow> bool" where
  "isWord c \<longleftrightarrow> isAlnum c \<or> c = 95"

definition trimStart :: "jsstr \<Rightarrow> jsstr" where
  "trimStart s = dropWhile isSpace s"

definition trimEnd :: "jsstr \<Rightarrow> jsstr" where
  "trimEnd s = rev (dropWhile isSpace (rev s))"

definition trim :: "jsstr \<Rightarrow> jsstr" where
  "trim s = trimStart (trimEnd s)"

subsection \<open>Case conversion\<close>

text \<open>
  \<^verbatim>\<open>toLowerCase()\<close> and \<^verbatim>\<open>toUpperCase()\<close> work on the code points of a string and follow the
  default case conversion of Unicode: the simple mappings of \<^verbatim>\<open>UnicodeData.txt\<close>, the
  unconditional mappings of \<^verbatim>\<open>SpecialCasing.txt\<close> and its one context rule, the final
  sigma. The tables are those of the Unicode Character Database 14.0.
\<close>

definition isHighSurrogate :: "nat \<Rightarrow> bool" where
  "isHighSurrogate c \<longleftrightarrow> 55296 \<le> c \<and> c \<le> 56319"

definition isLowSurrogate :: "nat \<Rightarrow> bool" where
  "isLowSurrogate c \<longleftrightarrow> 56320 \<le> c \<and> c \<le> 57343"

text \<open>The code points of a string: a high surrogate followed by a low one is one code
  point, every other code unit stands for itself.\<close>

fun toCodePoints :: "jsstr \<Rightarrow> nat list" where
  "toCodePoints [] = []"
| "toCodePoints [c] = [c]"
| "toCodePoints (h # l # rest) =
     (if isHighSurrogate h \<and> isLowSurrogate l
      then (65536 + (h - 55296) * 1024 + (l - 56320)) # toCodePoints rest
      else h # toCodePoints (l # rest))"

definition fromCodePoint :: "nat \<Rightarrow> jsstr" where
  "fromCodePoint cp =
     (if cp < 65536 then [cp]
      else [55296 + (cp - 65536) div 1024, 56320 + (cp - 65536) mod 1024])"

definition inRanges :: "(nat \<times> nat) list \<Rightarrow> nat \<Rightarrow> bool" where
  "inRanges ranges cp \<longleftrightarrow> list_ex (\<lambda>(lo, hi). lo \<le> cp \<and> cp \<le> hi) ranges"

text \<open>The image of a code point under a table of simple mappings; a code point outside the
  table is its own image.\<close>

fun mapPoint :: "(nat \<times> nat \<times> nat \<times> nat) list \<Rightarrow> nat \<Rightarrow> nat" where
  "mapPoint [] cp = cp"
| "mapPoint ((lo, hi, step, target) # rest) cp =
     (if lo \<le> cp \<and> cp \<le> hi \<and> (cp - lo) mod step = 0 then target + (cp - lo)
      else mapPoint rest cp)"

text \<open>The code points with the property Case\_Ignorable, as ranges with both ends included.\<close>

definition caseIgnorableRanges :: "(nat \<times> nat) list" where
  "caseIgnorableRanges =
     [(39, 39), (46, 46), (58, 58), (94, 94), (96, 96), (168, 168),
      (173, 173), (175, 175), (180, 180), (183, 184), (688, 879), (884, 885),
      (890, 890), (900, 901), (903, 903), (1155, 1161), (1369, 1369), (1375, 1375),
      (1425, 1469), (1471, 1471), (1473, 1474), (1476, 1477), (1479, 1479), (1524, 1524),
      (1536, 1541), (1552, 1562), (1564, 1564), (1600, 1600), (1611, 1631), (1648, 1648),
      (1750, 1757), (1759, 1768), (1770, 1773), (1807, 1807), (1809, 1809), (1840, 1866),
      (1958, 1968), (2027, 2037), (2042, 2042), (2045, 2045), (2070, 2093), (2137, 2139),
      (2184, 2184), (2192, 2193), (2200, 2207), (2249, 2306), (2362, 2362), (2364, 2364),
      (2369, 2376), (2381, 2381), (2385, 2391), (2402, 2403), (2417, 2417), (2433, 2433),
      (2492, 2492), (2497, 2500), (2509, 2509), (2530, 2531), (2558, 2558), (2561, 2562),
      (2620, 2620), (2625, 2626), (2631, 2632), (2635, 2637), (2641, 2641), (2672, 2673),
      (2677, 2677), (2689, 2690), (2748, 2748), (2753, 2757), (2759, 2760), (2765, 2765),
      (2786, 2787), (2810, 2815), (2817, 2817), (2876, 2876), (2879, 2879), (2881, 2884),
      (2893, 2893), (2901, 2902), (2914, 2915), (2946, 2946), (3008, 3008), (3021, 3021),
      (3072, 3072), (3076, 3076), (3132, 3132), (3134, 3136), (3142, 3144), (3146, 3149),
      (3157, 3158), (3170, 3171), (3201, 3201), (3260, 3260), (3263, 3263), (3270, 3270),
      (3276, 3277), (3298, 3299), (3328, 3329), (3387, 3388), (3393, 3396), (3405, 3405),
      (3426, 3427), (3457, 3457), (3530, 3530), (3538, 3540), (3542, 3542), (3633, 3633),
      (3636, 3642), (3654, 3662), (3761, 3761), (3764, 3772), (3782, 3782), (3784, 3789),
      (3864, 3865), (3893, 3893), (3895, 3895), (3897, 3897), (3953, 3966), (3968, 3972),
      (3974, 3975), (3981, 3991), (3993, 4028), (4038, 4038), (4141, 4144), (4146, 4151),
      (4153, 4154), (4157, 4158), (4184, 4185), (4190, 4192), (4209, 4212), (4226, 4226),
      (4229, 4230), (4237, 4237), (4253, 4253), (4348, 4348), (4957, 4959), (5906, 5908),
      (5938, 5939), (5970, 5971), (6002, 6003), (6068, 6069), (6071, 6077), (6086, 6086),
      (6089, 6099), (6103, 6103), (6109, 6109), (6155, 6159), (6211, 6211), (6277, 6278),
      (6313, 6313), (6432, 6434), (6439, 6440), (6450, 6450), (6457, 6459), (6679, 6680),
      (6683, 6683), (6742, 6742), (6744, 6750), (6752, 6752), (6754, 6754), (6757, 6764),
      (6771, 6780), (6783, 6783), (6823, 6823), (6832, 6862), (6912, 6915), (6964, 6964),
      (6966, 6970), (6972, 6972), (6978, 6978), (7019, 7027), (7040, 7041), (7074, 7077),
      (7080, 7081), (7083, 7085), (7142, 7142), (7144, 7145), (7149, 7149), (7151, 7153),
      (7212, 7219), (7222, 7223), (7288, 7293), (7376, 7378), (7380, 7392), (7394, 7400),
      (7405, 7405), (7412, 7412), (7416, 7417), (7468, 7530), (7544, 7544), (7579, 7679),
      (8125, 8125), (8127, 8129), (8141, 8143), (8157, 8159), (8173, 8175), (8189, 8190),
      (8203, 8207), (8216, 8217), (8228, 8228), (8231, 8231), (8234, 8238), (8288, 8292),
      (8294, 8303), (8305, 8305), (8319, 8319), (8336, 8348), (8400, 8432), (11388, 11389),
      (11503, 11505), (11631, 11631), (11647, 11647), (11744, 11775), (11823, 11823), (12293, 12293),
      (12330, 12333), (12337, 12341), (12347, 12347), (12441, 12446), (12540, 12542), (40981, 40981),
      (42232, 42237), (42508, 42508), (42607, 42610), (42612, 42621), (42623, 42623), (42652, 42655),
      (42736, 42737), (42752, 42785), (42864, 42864), (42888, 42890), (42994, 42996), (43000, 43001),
      (43010, 43010), (43014, 43014), (43019, 43019), (43045, 43046), (43052, 43052), (43204, 43205),
      (43232, 43249), (43263, 43263), (43302, 43309), (43335, 43345), (43392, 43394), (43443, 43443),
      (43446, 43449), (43452, 43453), (43471, 43471), (43493, 43494), (43561, 43566), (43569, 43570),
      (43573, 43574), (43587, 43587), (43596, 43596), (43632, 43632), (43644, 43644), (43696, 43696),
      (43698, 43700), (43703, 43704), (43710, 43711), (43713, 43713), (43741, 43741), (43756, 43757),
      (43763, 43764), (43766, 43766), (43867, 43871), (43881, 43883), (44005, 44005), (44008, 44008),
      (44013, 44013), (64286, 64286), (64434, 64450), (65024, 65039), (65043, 65043), (65056, 65071),
      (65106, 65106), (65109, 65109), (65279, 65279), (65287, 65287), (65294, 65294), (65306, 65306),
      (65342, 65342), (65344, 65344), (65392, 65392), (65438, 65439), (65507, 65507), (65529, 65531),
      (66045, 66045), (66272, 66272), (66422, 66426), (67456, 67461), (67463, 67504), (67506, 67514),
      (68097, 68099), (68101, 68102), (68108, 68111), (68152, 68154), (68159, 68159), (68325, 68326),
      (68900, 68903), (69291, 69292), (69446, 69456), (69506, 69509), (69633, 69633), (69688, 69702),
      (69744, 69744), (69747, 69748), (69759, 69761), (69811, 69814), (69817, 69818), (69821, 69821),
      (69826, 69826), (69837, 69837), (69888, 69890), (69927, 69931), (69933, 69940), (70003, 70003),
      (70016, 70017), (70070, 70078), (70089, 70092), (70095, 70095), (70191, 70193), (70196, 70196),
      (70198, 70199), (70206, 70206), (70367, 70367), (70371, 70378), (70400, 70401), (70459, 70460),
      (70464, 70464), (70502, 70508), (70512, 70516), (70712, 70719), (70722, 70724), (70726, 70726),
      (70750, 70750), (70835, 70840), (70842, 70842), (70847, 70848), (70850, 70851), (71090, 71093),
      (71100, 71101), (71103, 71104), (71132, 71133), (71219, 71226), (71229, 71229), (71231, 71232),
      (71339, 71339), (71341, 71341), (71344, 71349), (71351, 71351), (71453, 71455), (71458, 71461),
      (71463, 71467), (71727, 71735), (71737, 71738), (71995, 71996), (71998, 71998), (72003, 72003),
      (72148, 72151), (72154, 72155), (72160, 72160), (72193, 72202), (72243, 72248), (72251, 72254),
      (72263, 72263), (72273, 72278), (72281, 72283), (72330, 72342), (72344, 72345), (72752, 72758),
      (72760, 72765), (72767, 72767), (72850, 72871), (72874, 72880), (72882, 72883), (72885, 72886),
      (73009, 73014), (73018, 73018), (73020, 73021), (73023, 73029), (73031, 73031), (73104, 73105),
      (73109, 73109), (73111, 73111), (73459, 73460), (78896, 78904), (92912, 92916), (92976, 92982),
      (92992, 92995), (94031, 94031), (94095, 94111), (94176, 94177), (94179, 94180), (110576, 110579),
      (110581, 110587), (110589, 110590), (113821, 113822), (113824, 113827), (118528, 118573), (118576, 118598),
      (119143, 119145), (119155, 119170), (119173, 119179), (119210, 119213), (119362, 119364), (121344, 121398),
      (121403, 121452), (121461, 121461), (121476, 121476), (121499, 121503), (121505, 121519), (122880, 122886),
      (122888, 122904), (122907, 122913), (122915, 122916), (122918, 122922), (123184, 123197), (123566, 123566),
      (123628, 123631), (125136, 125142), (125252, 125259), (127995, 127999), (917505, 917505), (917536, 917631),
      (917760, 917999)]"

text \<open>The code points with the property Cased that are not Case\_Ignorable.\<close>

definition casedRanges :: "(nat \<times> nat) list" where
  "casedRanges =
     [(65, 90), (97, 122), (170, 170), (181, 181), (186, 186), (192, 214),
      (216, 246), (248, 442), (444, 447), (452, 659), (661, 687), (880, 883),
      (886, 887), (891, 893), (895, 895), (902, 902), (904, 906), (908, 908),
      (910, 929), (931, 1013), (1015, 1153), (1162, 1327), (1329, 1366), (1376, 1416),
      (4256, 4293), (4295, 4295), (4301, 4301), (4304, 4346), (4349, 4351), (5024, 5109),
      (5112, 5117), (7296, 7304), (7312, 7354), (7357, 7359), (7424, 7467), (7531, 7543),
      (7545, 7578), (7680, 7957), (7960, 7965), (7968, 8005), (8008, 8013), (8016, 8023),
      (8025, 8025), (8027, 8027), (8029, 8029), (8031, 8061), (8064, 8116), (8118, 8124),
      (8126, 8126), (8130, 8132), (8134, 8140), (8144, 8147), (8150, 8155), (8160, 8172),
      (8178, 8180), (8182, 8188), (8450, 8450), (8455, 8455), (8458, 8467), (8469, 8469),
      (8473, 8477), (8484, 8484), (8486, 8486), (8488, 8488), (8490, 8493), (8495, 8500),
      (8505, 8505), (8508, 8511), (8517, 8521), (8526, 8526), (8544, 8575), (8579, 8580),
      (9398, 9449), (11264, 11387), (11390, 11492), (11499, 11502), (11506, 11507), (11520, 11557),
      (11559, 11559), (11565, 11565), (42560, 42605), (42624, 42651), (42786, 42863), (42865, 42887),
      (42891, 42894), (42896, 42954), (42960, 42961), (42963, 42963), (42965, 42969), (42997, 42998),
      (43002, 43002), (43824, 43866), (43872, 43880), (43888, 43967), (64256, 64262), (64275, 64279),
      (65313, 65338), (65345, 65370), (66560, 66639), (66736, 66771), (66776, 66811), (66928, 66938),
      (66940, 66954), (66956, 66962), (66964, 66965), (66967, 66977), (66979, 66993), (66995, 67001),
      (67003, 67004), (68736, 68786), (68800, 68850), (71840, 71903), (93760, 93823), (119808, 119892),
      (119894, 119964), (119966, 119967), (119970, 119970), (119973, 119974), (119977, 119980), (119982, 119993),
      (119995, 119995), (119997, 120003), (120005, 120069), (120071, 120074), (120077, 120084), (120086, 120092),
      (120094, 120121), (120123, 120126), (120128, 120132), (120134, 120134), (120138, 120144), (120146, 120485),
      (120488, 120512), (120514, 120538), (120540, 120570), (120572, 120596), (120598, 120628), (120630, 120654),
      (120656, 120686), (120688, 120712), (120714, 120744), (120746, 120770), (120772, 120779), (122624, 122633),
      (122635, 122654), (125184, 125251), (127280, 127305), (127312, 127337), (127344, 127369)]"

text \<open>The simple lower-case mappings outside ASCII, without the Kelvin sign: from the first to the last code point of a
  range in the given step, the first one is mapped to the given target and the others to the
  code points at the same distance.\<close>

definition lowerRanges :: "(nat \<times> nat \<times> nat \<times> nat) list" where
  "lowerRanges =
     [(192, 214, 1, 224), (216, 222, 1, 248), (256, 302, 2, 257), (306, 310, 2, 307),
      (313, 327, 2, 314), (330, 374, 2, 331), (376, 376, 1, 255), (377, 381, 2, 378),
      (385, 385, 1, 595), (386, 388, 2, 387), (390, 390, 1, 596), (391, 391, 1, 392),
      (393, 394, 1, 598), (395, 395, 1, 396), (398, 398, 1, 477), (399, 399, 1, 601),
      (400, 400, 1, 603), (401, 401, 1, 402), (403, 403, 1, 608), (404, 404, 1, 611),
      (406, 406, 1, 617), (407, 407, 1, 616), (408, 408, 1, 409), (412, 412, 1, 623),
      (413, 413, 1, 626), (415, 415, 1, 629), (416, 420, 2, 417), (422, 422, 1, 640),
      (423, 423, 1, 424), (425, 425, 1, 643), (428, 428, 1, 429), (430, 430, 1, 648),
      (431, 431, 1, 432), (433, 434, 1, 650), (435, 437, 2, 436), (439, 439, 1, 658),
      (440, 440, 1, 441), (444, 444, 1, 445), (452, 452, 1, 454), (453, 453, 1, 454),
      (455, 455, 1, 457), (456, 456, 1, 457), (458, 458, 1, 460), (459, 475, 2, 460),
      (478, 494, 2, 479), (497, 497, 1, 499), (498, 500, 2, 499), (502, 502, 1, 405),
      (503, 503, 1, 447), (504, 542, 2, 505), (544, 544, 1, 414), (546, 562, 2, 547),
      (570, 570, 1, 11365), (571, 571, 1, 572), (573, 573, 1, 410), (574, 574, 1, 11366),
      (577, 577, 1, 578), (579, 579, 1, 384), (580, 580, 1, 649), (581, 581, 1, 652),
      (582, 590, 2, 583), (880, 882, 2, 881), (886, 886, 1, 887), (895, 895, 1, 1011),
      (902, 902, 1, 940), (904, 906, 1, 941), (908, 908, 1, 972), (910, 911, 1, 973),
      (913, 929, 1, 945), (931, 939, 1, 963), (975, 975, 1, 983), (984, 1006, 2, 985),
      (1012, 1012, 1, 952), (1015, 1015, 1, 1016), (1017, 1017, 1, 1010), (1018, 1018, 1, 1019),
      (1021, 1023, 1, 891), (1024, 1039, 1, 1104), (1040, 1071, 1, 1072), (1120, 1152, 2, 1121),
      (1162, 1214, 2, 1163), (1216, 1216, 1, 1231), (1217, 1229, 2, 1218), (1232, 1326, 2, 1233),
      (1329, 1366, 1, 1377), (4256, 4293, 1, 11520), (4295, 4295, 1, 11559), (4301, 4301, 1, 11565),
      (5024, 5103, 1, 43888), (5104, 5109, 1, 5112), (7312, 7354, 1, 4304), (7357, 7359, 1, 4349),
      (7680, 7828, 2, 7681), (7838, 7838, 1, 223), (7840, 7934, 2, 7841), (7944, 7951, 1, 7936),
      (7960, 7965, 1, 7952), (7976, 7983, 1, 7968), (7992, 7999, 1, 7984), (8008, 8013, 1, 8000),
      (8025, 8031, 2, 8017), (8040, 8047, 1, 8032), (8072, 8079, 1, 8064), (8088, 8095, 1, 8080),
      (8104, 8111, 1, 8096), (8120, 8121, 1, 8112), (8122, 8123, 1, 8048), (8124, 8124, 1, 8115),
      (8136, 8139, 1, 8050), (8140, 8140, 1, 8131), (8152, 8153, 1, 8144), (8154, 8155, 1, 8054),
      (8168, 8169, 1, 8160), (8170, 8171, 1, 8058), (8172, 8172, 1, 8165), (8184, 8185, 1, 8056),
      (8186, 8187, 1, 8060), (8188, 8188, 1, 8179), (8486, 8486, 1, 969), (8491, 8491, 1, 229),
      (8498, 8498, 1, 8526), (8544, 8559, 1, 8560), (8579, 8579, 1, 8580), (9398, 9423, 1, 9424),
      (11264, 11311, 1, 11312), (11360, 11360, 1, 11361), (11362, 11362, 1, 619), (11363, 11363, 1, 7549),
      (11364, 11364, 1, 637), (11367, 11371, 2, 11368), (11373, 11373, 1, 593), (11374, 11374, 1, 625),
      (11375, 11375, 1, 592), (11376, 11376, 1, 594), (11378, 11378, 1, 11379), (11381, 11381, 1, 11382),
      (11390, 11391, 1, 575), (11392, 11490, 2, 11393), (11499, 11501, 2, 11500), (11506, 11506, 1, 11507),
      (42560, 42604, 2, 42561), (42624, 42650, 2, 42625), (42786, 42798, 2, 42787), (42802, 42862, 2, 42803),
      (42873, 42875, 2, 42874), (42877, 42877, 1, 7545), (42878, 42886, 2, 42879), (42891, 42891, 1, 42892),
      (42893, 42893, 1, 613), (42896, 42898, 2, 42897), (42902, 42920, 2, 42903), (42922, 42922, 1, 614),
      (42923, 42923, 1, 604), (42924, 42924, 1, 609), (42925, 42925, 1, 620), (42926, 42926, 1, 618),
      (42928, 42928, 1, 670), (42929, 42929, 1, 647), (42930, 42930, 1, 669), (42931, 42931, 1, 43859),
      (42932, 42946, 2, 42933), (42948, 42948, 1, 42900), (42949, 42949, 1, 642), (42950, 42950, 1, 7566),
      (42951, 42953, 2, 42952), (42960, 42960, 1, 42961), (42966, 42968, 2, 42967), (42997, 42997, 1, 42998),
      (65313, 65338, 1, 65345), (66560, 66599, 1, 66600), (66736, 66771, 1, 66776), (66928, 66928, 2, 66967),
      (66929, 66938, 1, 66968), (66940, 66954, 1, 66979), (66956, 66962, 1, 66995), (66964, 66965, 1, 67003),
      (68736, 68786, 1, 68800), (71840, 71871, 1, 71872), (93760, 93791, 1, 93792), (125184, 125217, 1, 125218)]"

text \<open>The simple upper-case mappings of the code points from U+0080 to U+FFFF, in the same form.\<close>

definition upperRanges :: "(nat \<times> nat \<times> nat \<times> nat) list" where
  "upperRanges =
     [(181, 181, 1, 924), (224, 246, 1, 192), (248, 254, 1, 216), (255, 255, 1, 376),
      (257, 303, 2, 256), (305, 305, 1, 73), (307, 311, 2, 306), (314, 328, 2, 313),
      (331, 375, 2, 330), (378, 382, 2, 377), (383, 383, 1, 83), (384, 384, 1, 579),
      (387, 389, 2, 386), (392, 392, 1, 391), (396, 396, 1, 395), (402, 402, 1, 401),
      (405, 405, 1, 502), (409, 409, 1, 408), (410, 410, 1, 573), (414, 414, 1, 544),
      (417, 421, 2, 416), (424, 424, 1, 423), (429, 429, 1, 428), (432, 432, 1, 431),
      (436, 438, 2, 435), (441, 441, 1, 440), (445, 445, 1, 444), (447, 447, 1, 503),
      (453, 453, 1, 452), (454, 454, 1, 452), (456, 456, 1, 455), (457, 457, 1, 455),
      (459, 459, 1, 458), (460, 460, 1, 458), (462, 476, 2, 461), (477, 477, 1, 398),
      (479, 495, 2, 478), (498, 498, 1, 497), (499, 499, 1, 497), (501, 501, 1, 500),
      (505, 543, 2, 504), (547, 563, 2, 546), (572, 572, 1, 571), (575, 576, 1, 11390),
      (578, 578, 1, 577), (583, 591, 2, 582), (592, 592, 1, 11375), (593, 593, 1, 11373),
      (594, 594, 1, 11376), (595, 595, 1, 385), (596, 596, 1, 390), (598, 599, 1, 393),
      (601, 601, 1, 399), (603, 603, 1, 400), (604, 604, 1, 42923), (608, 608, 1, 403),
      (609, 609, 1, 42924), (611, 611, 1, 404), (613, 613, 1, 42893), (614, 614, 1, 42922),
      (616, 616, 1, 407), (617, 617, 1, 406), (618, 618, 1, 42926), (619, 619, 1, 11362),
      (620, 620, 1, 42925), (623, 623, 1, 412), (625, 625, 1, 11374), (626, 626, 1, 413),
      (629, 629, 1, 415), (637, 637, 1, 11364), (640, 640, 1, 422), (642, 642, 1, 42949),
      (643, 643, 1, 425), (647, 647, 1, 42929), (648, 648, 1, 430), (649, 649, 1, 580),
      (650, 651, 1, 433), (652, 652, 1, 581), (658, 658, 1, 439), (669, 669, 1, 42930),
      (670, 670, 1, 42928), (837, 837, 1, 921), (881, 883, 2, 880), (887, 887, 1, 886),
      (891, 893, 1, 1021), (940, 940, 1, 902), (941, 943, 1, 904), (945, 961, 1, 913),
      (962, 962, 1, 931), (963, 971, 1, 931), (972, 972, 1, 908), (973, 974, 1, 910),
      (976, 976, 1, 914), (977, 977, 1, 920), (981, 981, 1, 934), (982, 982, 1, 928),
      (983, 983, 1, 975), (985, 1007, 2, 984), (1008, 1008, 1, 922), (1009, 1009, 1, 929),
      (1010, 1010, 1, 1017), (1011, 1011, 1, 895), (1013, 1013, 1, 917), (1016, 1016, 1, 1015),
      (1019, 1019, 1, 1018), (1072, 1103, 1, 1040), (1104, 1119, 1, 1024), (1121, 1153, 2, 1120),
      (1163, 1215, 2, 1162), (1218, 1230, 2, 1217), (1231, 1231, 1, 1216), (1233, 1327, 2, 1232),
      (1377, 1414, 1, 1329), (4304, 4346, 1, 7312), (4349, 4351, 1, 7357), (5112, 5117, 1, 5104),
      (7296, 7296, 1, 1042), (7297, 7297, 1, 1044), (7298, 7298, 1, 1054), (7299, 7300, 1, 1057),
      (7301, 7301, 1, 1058), (7302, 7302, 1, 1066), (7303, 7303, 1, 1122), (7304, 7304, 1, 42570),
      (7545, 7545, 1, 42877), (7549, 7549, 1, 11363), (7566, 7566, 1, 42950), (7681, 7829, 2, 7680),
      (7835, 7835, 1, 7776), (7841, 7935, 2, 7840), (7936, 7943, 1, 7944), (7952, 7957, 1, 7960),
      (7968, 7975, 1, 7976), (7984, 7991, 1, 7992), (8000, 8005, 1, 8008), (8017, 8023, 2, 8025),
      (8032, 8039, 1, 8040), (8048, 8049, 1, 8122), (8050, 8053, 1, 8136), (8054, 8055, 1, 8154),
      (8056, 8057, 1, 8184), (8058, 8059, 1, 8170), (8060, 8061, 1, 8186), (8112, 8113, 1, 8120),
      (8126, 8126, 1, 921), (8144, 8145, 1, 8152), (8160, 8161, 1, 8168), (8165, 8165, 1, 8172),
      (8526, 8526, 1, 8498), (8560, 8575, 1, 8544), (8580, 8580, 1, 8579), (9424, 9449, 1, 9398),
      (11312, 11359, 1, 11264), (11361, 11361, 1, 11360), (11365, 11365, 1, 570), (11366, 11366, 1, 574),
      (11368, 11372, 2, 11367), (11379, 11379, 1, 11378), (11382, 11382, 1, 11381), (11393, 11491, 2, 11392),
      (11500, 11502, 2, 11499), (11507, 11507, 1, 11506), (11520, 11557, 1, 4256), (11559, 11559, 1, 4295),
      (11565, 11565, 1, 4301), (42561, 42605, 2, 42560), (42625, 42651, 2, 42624), (42787, 42799, 2, 42786),
      (42803, 42863, 2, 42802), (42874, 42876, 2, 42873), (42879, 42887, 2, 42878), (42892, 42892, 1, 42891),
      (42897, 42899, 2, 42896), (42900, 42900, 1, 42948), (42903, 42921, 2, 42902), (42933, 42947, 2, 42932),
      (42952, 42954, 2, 42951), (42961, 42961, 1, 42960), (42967, 42969, 2, 42966), (42998, 42998, 1, 42997),
      (43859, 43859, 1, 42931), (43888, 43967, 1, 5024), (65345, 65370, 1, 65313)]"

text \<open>The code points whose upper-case form has more than one code point.\<close>

definition upperSpecial :: "(nat \<times> jsstr) list" where
  "upperSpecial =
     [(223, [83, 83]), (329, [700, 78]), (496, [74, 780]), (912, [921, 776, 769]),
      (944, [933, 776, 769]), (1415, [1333, 1362]), (7830, [72, 817]), (7831, [84, 776]),
      (7832, [87, 778]), (7833, [89, 778]), (7834, [65, 702]), (8016, [933, 787]),
      (8018, [933, 787, 768]), (8020, [933, 787, 769]), (8022, [933, 787, 834]), (8064, [7944, 921]),
      (8065, [7945, 921]), (8066, [7946, 921]), (8067, [7947, 921]), (8068, [7948, 921]),
      (8069, [7949, 921]), (8070, [7950, 921]), (8071, [7951, 921]), (8072, [7944, 921]),
      (8073, [7945, 921]), (8074, [7946, 921]), (8075, [7947, 921]), (8076, [7948, 921]),
      (8077, [7949, 921]), (8078, [7950, 921]), (8079, [7951, 921]), (8080, [7976, 921]),
      (8081, [7977, 921]), (8082, [7978, 921]), (8083, [7979, 921]), (8084, [7980, 921]),
      (8085, [7981, 921]), (8086, [7982, 921]), (8087, [7983, 921]), (8088, [7976, 921]),
      (8089, [7977, 921]), (8090, [7978, 921]), (8091, [7979, 921]), (8092, [7980, 921]),
      (8093, [7981, 921]), (8094, [7982, 921]), (8095, [7983, 921]), (8096, [8040, 921]),
      (8097, [8041, 921]), (8098, [8042, 921]), (8099, [8043, 921]), (8100, [8044, 921]),
      (8101, [8045, 921]), (8102, [8046, 921]), (8103, [8047, 921]), (8104, [8040, 921]),
      (8105, [8041, 921]), (8106, [8042, 921]), (8107, [8043, 921]), (8108, [8044, 921]),
      (8109, [8045, 921]), (8110, [8046, 921]), (8111, [8047, 921]), (8114, [8122, 921]),
      (8115, [913, 921]), (8116, [902, 921]), (8118, [913, 834]), (8119, [913, 834, 921]),
      (8124, [913, 921]), (8130, [8138, 921]), (8131, [919, 921]), (8132, [905, 921]),
      (8134, [919, 834]), (8135, [919, 834, 921]), (8140, [919, 921]), (8146, [921, 776, 768]),
      (8147, [921, 776, 769]), (8150, [921, 834]), (8151, [921, 776, 834]), (8162, [933, 776, 768]),
      (8163, [933, 776, 769]), (8164, [929, 787]), (8166, [933, 834]), (8167, [933, 776, 834]),
      (8178, [8186, 921]), (8179, [937, 921]), (8180, [911, 921]), (8182, [937, 834]),
      (8183, [937, 834, 921]), (8188, [937, 921]), (64256, [70, 70]), (64257, [70, 73]),
      (64258, [70, 76]), (64259, [70, 70, 73]), (64260, [70, 70, 76]), (64261, [83, 84]),
      (64262, [83, 84]), (64275, [1348, 1350]), (64276, [1348, 1333]), (64277, [1348, 1339]),
      (64278, [1358, 1350]), (64279, [1348, 1341])]"


text \<open>The lower-case form of a code point without regard to its context: the ASCII
  capitals, the dotted capital I (U+0130, \<open>i\<close> followed by U+0307), the Kelvin sign (U+212A,
  \<open>k\<close>), and the table.\<close>

definition lowerPoint :: "nat \<Rightarrow> nat list" where
  "lowerPoint cp =
     (if cp < 128 then [if 65 \<le> cp \<and> cp \<le> 90 then cp + 32 else cp]
      else if cp = 304 then [105, 775]
      else if cp = 8490 then [107]
      else [mapPoint lowerRanges cp])"

text \<open>The context of the final sigma, read away from the sigma: case-ignorable code points
  are skipped, the first other code point decides.\<close>

fun casedNext :: "nat list \<Rightarrow> bool" where
  "casedNext [] = False"
| "casedNext (cp # more) =
     (if inRanges caseIgnorableRanges cp then casedNext more else inRanges casedRanges cp)"

text \<open>The capital sigma (U+03A3) becomes the final sigma (U+03C2) when a cased letter
  precedes it and none follows; \<open>passed\<close> holds the code points already read, the last one
  first.\<close>

fun lowerFrom :: "nat list \<Rightarrow> nat list \<Rightarrow> nat list" where
  "lowerFrom passed [] = []"
| "lowerFrom passed (cp # rest) =
     (if cp = 931 \<and> casedNext passed \<and> \<not> casedNext rest then [962] else lowerPoint cp) @
     lowerFrom (cp # passed) rest"

definition toLowerCase :: "jsstr \<Rightarrow> jsstr" where
  "toLowerCase s = concat (map fromCodePoint (lowerFrom [] (toCodePoints s)))"

text \<open>The case folding of a regular expression with the flag \<^verbatim>\<open>i\<close> and without the
  flag \<^verbatim>\<open>u\<close>, against a pattern of ASCII characters: only the ASCII capitals fold.\<close>

definition asciiLower :: "jsstr \<Rightarrow> jsstr" where
  "asciiLower s = map (\<lambda>c. if 65 \<le> c \<and> c \<le> 90 then c + 32 else c) s"

text \<open>\<^verbatim>\<open>toUpperCase()\<close> of a string of one code unit, as \<^verbatim>\<open>charAt(0).toUpperCase()\<close> uses
  it. A surrogate is in no table and stays as it is.\<close>

definition upperUnit :: "nat \<Rightarrow> jsstr" where
  "upperUnit c =
     (if c < 128 then [if 97 \<le> c \<and> c \<le> 122 then c - 32 else c]
      else (case map_of upperSpecial c of
              Some us \<Rightarrow> us
            | None \<Rightarrow> [mapPoint upperRanges c]))"

definition includesStr :: "jsstr \<Rightarrow> jsstr \<Rightarrow> bool" where
  "includesStr s p \<longleftrightarrow> sublist p s"

definition startsWith :: "jsstr \<Rightarrow> jsstr \<Rightarrow> bool" where
  "startsWith s p \<longleftrightarrow> prefix p s"

definition endsWith :: "jsstr \<Rightarrow> jsstr \<Rightarrow> bool" where
  "endsWith s p \<longleftrightarrow> suffix p s"

text \<open>\<^verbatim>\<open>s.indexOf(p)\<close>: the first index at which \<open>p\<close> occurs, \<open>None\<close> for \<open>-1\<close>.\<close>

fun indexOf :: "jsstr \<Rightarrow> jsstr \<Rightarrow> nat option" where
  "indexOf [] p = (if p = [] then Some 0 else None)"
| "indexOf (c # cs) p =
     (if prefix p (c # cs) then Some 0
      else (case indexOf cs p of None \<Rightarrow> None | Some i \<Rightarrow> Some (Suc i)))"

text \<open>\<^verbatim>\<open>s.split(sep)\<close> for a separator of one code unit: never empty, \<open>''''\<close> gives \<open>['''']\<close>.\<close>

fun split :: "nat \<Rightarrow> jsstr \<Rightarrow> jsstr list" where
  "split sep [] = [[]]"
| "split sep (c # cs) =
     (if c = sep then [] # split sep cs
      else (case split sep cs of [] \<Rightarrow> [[c]] | w # ws \<Rightarrow> (c # w) # ws))"

fun join :: "jsstr \<Rightarrow> jsstr list \<Rightarrow> jsstr" where
  "join sep [] = []"
| "join sep [x] = x"
| "join sep (x # y # ys) = x @ sep @ join sep (y # ys)"

text \<open>
  \<^verbatim>\<open>s.replace(/[class]+/g, r)\<close>: every maximal run of characters of the class is replaced
  by \<open>r\<close>. The flag says whether the character before was in the class.
\<close>

fun replaceRunsFrom :: "bool \<Rightarrow> (nat \<Rightarrow> bool) \<Rightarrow> jsstr \<Rightarrow> jsstr \<Rightarrow> jsstr" where
  "replaceRunsFrom inRun P r [] = []"
| "replaceRunsFrom inRun P r (c # cs) =
     (if P c then (if inRun then [] else r) @ replaceRunsFrom True P r cs
      else c # replaceRunsFrom False P r cs)"

definition replaceRuns :: "(nat \<Rightarrow> bool) \<Rightarrow> jsstr \<Rightarrow> jsstr \<Rightarrow> jsstr" where
  "replaceRuns P r s = replaceRunsFrom False P r s"

text \<open>\<^verbatim>\<open>s.replace(/\s+/g, ' ').trim()\<close>, used wherever a line is put together.\<close>

definition collapseSpaces :: "jsstr \<Rightarrow> jsstr" where
  "collapseSpaces s = trim (replaceRuns isSpace [32] s)"

text \<open>A JavaScript \<^verbatim>\<open>Set\<close> of strings keeps insertion order; \<^verbatim>\<open>add\<close> of a member
  changes nothing.\<close>

definition setAdd :: "'a list \<Rightarrow> 'a \<Rightarrow> 'a list" where
  "setAdd xs x = (if x \<in> set xs then xs else xs @ [x])"

section \<open>Data model\<close>

datatype changeType = Added | Deleted | Modified | Renamed | Binary

record FileSummary =
  path :: jsstr
  changeType :: changeType
  additions :: nat
  deletions :: nat
  contextLabels :: "jsstr list"
  highlights :: "jsstr list"
  keywordList :: "jsstr list"
  weight :: nat

text \<open>The fields of \<^verbatim>\<open>PreprocessResult\<close> that the prompt builder and the normalizer read.\<close>

record PreprocessResult =
  files :: "FileSummary list"
  lockfileSummaries :: "jsstr list"
  totalAdditions :: nat
  totalDeletions :: nat

datatype lang = En | Zh

datatype subjectStyle = Imperative | Sentence

section \<open>Required tokens: matching\<close>

text \<open>\<^verbatim>\<open>normalizeForMatch\<close>: lower-case, runs outside \<^verbatim>\<open>[a-z0-9]\<close> to one space, runs of
  white space to one space, trim.\<close>

definition normalizeForMatch :: "jsstr \<Rightarrow> jsstr" where
  "normalizeForMatch text =
     trim (replaceRuns isSpace [32]
            (replaceRuns (\<lambda>c. \<not> isLowerAlnum c) [32] (toLowerCase text)))"

text \<open>\<^verbatim>\<open>base.replace(/\.[a-z0-9]+$/i, '')\<close>: a final dot followed by letters and digits up to
  the end of the string is removed.\<close>

definition stripExtension :: "jsstr \<Rightarrow> jsstr" where
  "stripExtension base =
     (case dropWhile isAlnum (rev base) of
        [] \<Rightarrow> base
      | c # rest \<Rightarrow> if c = 46 \<and> takeWhile isAlnum (rev base) \<noteq> [] then rev rest else base)"

text \<open>\<^verbatim>\<open>trimmed.replace(/^[.#/]+/, '')\<close>.\<close>

definition stripLeadingMarks :: "jsstr \<Rightarrow> jsstr" where
  "stripLeadingMarks s = dropWhile (\<lambda>c. c = 46 \<or> c = 35 \<or> c = 47) s"

text \<open>\<^verbatim>\<open>s.split('/').pop()\<close>.\<close>

definition lastSegment :: "jsstr \<Rightarrow> jsstr" where
  "lastSegment s = last (split 47 s)"

definition expandTokenVariants :: "jsstr \<Rightarrow> jsstr list" where
  "expandTokenVariants token =
     (let trimmed = trim token in
      if trimmed = [] then []
      else
        let variants0 = [trimmed];
            stripped = stripLeadingMarks trimmed;
            variants1 = (if stripped \<noteq> [] \<and> stripped \<noteq> trimmed
                         then setAdd variants0 stripped else variants0);
            base = lastSegment trimmed;
            variants2 = (if base \<noteq> [] \<and> base \<noteq> trimmed
                         then setAdd variants1 base else variants1);
            noExt = stripExtension base
        in if noExt \<noteq> [] \<and> noExt \<noteq> base then setAdd variants2 noExt else variants2)"

text \<open>The inner loop of \<^verbatim>\<open>matchRequiredTokens\<close>: variants whose normal form has fewer
  than three characters are skipped, the first one found in the subject ends the loop.\<close>

fun variantFound :: "jsstr \<Rightarrow> jsstr list \<Rightarrow> bool" where
  "variantFound normalizedSubject [] = False"
| "variantFound normalizedSubject (variant # rest) =
     (let normalizedVariant = normalizeForMatch variant in
      if length normalizedVariant < 3 then variantFound normalizedSubject rest
      else if normalizedVariant \<noteq> [] \<and> includesStr normalizedSubject normalizedVariant then True
      else variantFound normalizedSubject rest)"

text \<open>The outer loop: \<open>matched\<close> is \<^verbatim>\<open>matchedTokens\<close>; the set \<^verbatim>\<open>seen\<close> of the source
  always holds the same strings.\<close>

fun matchLoop :: "jsstr \<Rightarrow> jsstr list \<Rightarrow> jsstr list \<Rightarrow> jsstr list" where
  "matchLoop normalizedSubject [] matched = matched"
| "matchLoop normalizedSubject (token # rest) matched =
     matchLoop normalizedSubject rest
       (if variantFound normalizedSubject (expandTokenVariants token) \<and> token \<notin> set matched
        then matched @ [token] else matched)"

record matchResult =
  ok :: bool
  matchedTokens :: "jsstr list"

definition matchRequiredTokens :: "jsstr \<Rightarrow> jsstr list \<Rightarrow> int \<Rightarrow> matchResult" where
  "matchRequiredTokens subject tokens requiredCount =
     (if length tokens = 0 then \<lparr>ok = True, matchedTokens = []\<rparr>
      else
        let normalizedSubject = normalizeForMatch subject;
            matched = matchLoop normalizedSubject tokens [];
            minCount = max 1 requiredCount
        in \<lparr>ok = (int (length matched) \<ge> minCount), matchedTokens = matched\<rparr>)"

section \<open>Validation of a candidate subject\<close>

text \<open>\<^verbatim>\<open>/updated implementation details|update logic|multiple files|misc|various/i\<close> or
  fewer than twelve code units.\<close>

definition isTooGeneric :: "jsstr \<Rightarrow> bool" where
  "isTooGeneric message \<longleftrightarrow>
     (let m = asciiLower message in
        includesStr m (js ''updated implementation details'') \<or> includesStr m (js ''update logic'') \<or>
        includesStr m (js ''multiple files'') \<or> includesStr m (js ''misc'') \<or>
        includesStr m (js ''various''))
     \<or> length message < 12"

text \<open>\<^verbatim>\<open>\+\d+\/-\d+\<close> matched at the head of a string: the digits after the plus sign run
  up to the slash.\<close>

definition diffStatAt :: "jsstr \<Rightarrow> bool" where
  "diffStatAt s =
     (case s of
        [] \<Rightarrow> False
      | c # rest \<Rightarrow>
          c = 43 \<and> takeWhile isDigit rest \<noteq> [] \<and>
          (case dropWhile isDigit rest of
             a # b # d # _ \<Rightarrow> a = 47 \<and> b = 45 \<and> isDigit d
           | _ \<Rightarrow> False))"

text \<open>\<^verbatim>\<open>\(\+\d+\/-\d+\)\<close> matched at the head of a string.\<close>

definition parenDiffStatAt :: "jsstr \<Rightarrow> bool" where
  "parenDiffStatAt s =
     (case s of
        [] \<Rightarrow> False
      | c # rest \<Rightarrow>
          c = 40 \<and> diffStatAt rest \<and>
          (case dropWhile isDigit (drop 2 (dropWhile isDigit (drop 1 rest))) of
             e # _ \<Rightarrow> e = 41
           | [] \<Rightarrow> False))"

fun matchesSomewhere :: "(jsstr \<Rightarrow> bool) \<Rightarrow> jsstr \<Rightarrow> bool" where
  "matchesSomewhere P [] = P []"
| "matchesSomewhere P (c # cs) = (P (c # cs) \<or> matchesSomewhere P cs)"

definition containsDiffStats :: "jsstr \<Rightarrow> bool" where
  "containsDiffStats subject \<longleftrightarrow>
     matchesSomewhere parenDiffStatAt subject \<or> matchesSomewhere diffStatAt subject \<or>
     includesStr (asciiLower subject) (js ''files changed'') \<or>
     includesStr (asciiLower subject) (js ''lines:'')"

datatype reason = Empty | MissingTokens | Generic | DiffStats | TooShort

text \<open>The list \<^verbatim>\<open>reasons\<close> that \<^verbatim>\<open>ensureSpecificSubject\<close> collects, in both variants of
  the normalizer, from the trimmed subject.\<close>

definition fallbackReasons :: "jsstr \<Rightarrow> jsstr list \<Rightarrow> int \<Rightarrow> nat \<Rightarrow> reason list" where
  "fallbackReasons cleaned requiredTokens requiredTokenCount minSubjectLength =
     (if length cleaned = 0 then [Empty] else []) @
     (if \<not> ok (matchRequiredTokens cleaned requiredTokens requiredTokenCount)
      then [MissingTokens] else []) @
     (if isTooGeneric cleaned then [Generic] else []) @
     (if containsDiffStats cleaned then [DiffStats] else []) @
     (if minSubjectLength > 0 \<and> length cleaned < minSubjectLength then [TooShort] else [])"

section \<open>Ranking, scope and type\<close>

text \<open>
  \<^verbatim>\<open>(a.additions + a.deletions) || a.weight || 0\<close>: the changed lines, or the weight when no
  line changed.
\<close>

definition score :: "FileSummary \<Rightarrow> nat" where
  "score f = (if additions f + deletions f \<noteq> 0 then additions f + deletions f else weight f)"

text \<open>
  \<^verbatim>\<open>[...diff.files].sort((a, b) => scoreB - scoreA)\<close>: descending by score.
  \<^verbatim>\<open>Array.prototype.sort\<close> is stable, so files of equal score keep the order of the diff.
\<close>

fun insertRanked :: "FileSummary \<Rightarrow> FileSummary list \<Rightarrow> FileSummary list" where
  "insertRanked f [] = [f]"
| "insertRanked f (g # gs) = (if score g \<le> score f then f # g # gs else g # insertRanked f gs)"

definition rankFiles :: "FileSummary list \<Rightarrow> FileSummary list" where
  "rankFiles fs = foldr insertRanked fs []"

definition deriveScope :: "jsstr \<Rightarrow> jsstr" where
  "deriveScope filePath =
     (let parts = split 47 filePath in if length parts > 1 then hd parts else js ''core'')"

text \<open>\<^verbatim>\<open>scopeHint\<close> of \<^verbatim>\<open>generateCommitMessage\<close>, the same line in both variants:
  \<^verbatim>\<open>diff.files[0] ? deriveScope(diff.files[0].path) : 'repo'\<close>.\<close>

definition scopeHint :: "PreprocessResult \<Rightarrow> jsstr" where
  "scopeHint diff = (case files diff of [] \<Rightarrow> js ''repo'' | f # _ \<Rightarrow> deriveScope (path f))"

text \<open>\<^verbatim>\<open>(file.additions + file.deletions) || file.weight || 1\<close>.\<close>

definition typeWeight :: "FileSummary \<Rightarrow> nat" where
  "typeWeight f =
     (if additions f + deletions f \<noteq> 0 then additions f + deletions f
      else if weight f \<noteq> 0 then weight f else 1)"

datatype bucket = TestBucket | DocsBucket | ConfigBucket | CodeBucket

text \<open>The chain of path tests in the loop of \<^verbatim>\<open>deriveType\<close>, on the lower-cased path; the
  first test that holds decides.\<close>

definition bucketOf :: "jsstr \<Rightarrow> bucket" where
  "bucketOf filePath =
     (let lower = toLowerCase filePath in
      if includesStr lower (js ''test'') \<or> includesStr lower (js ''spec'') then TestBucket
      else if includesStr lower (js ''docs'') \<or> includesStr lower (js ''readme'') \<or>
              endsWith lower (js ''.md'') then DocsBucket
      else if includesStr lower (js ''config'') \<or> endsWith lower (js ''.yml'') \<or>
              endsWith lower (js ''.yaml'') \<or> endsWith lower (js ''.json'') \<or>
              endsWith lower (js ''.toml'') \<or> endsWith lower (js ''.ini'') \<or>
              includesStr lower (js ''cmake'') \<or> includesStr lower (js ''makefile'') \<or>
              startsWith lower (js ''dist/'') \<or> includesStr lower (js ''/dist/'') \<or>
              startsWith lower (js ''build/'') \<or> includesStr lower (js ''/build/'')
      then ConfigBucket
      else CodeBucket)"

record weights =
  test :: nat
  docs :: nat
  config :: nat
  code :: nat
  total :: nat

text \<open>One pass of the loop body over a file.\<close>

definition addFile :: "weights \<Rightarrow> FileSummary \<Rightarrow> weights" where
  "addFile w f =
     (let wt = typeWeight f; w1 = w\<lparr>total := total w + wt\<rparr> in
      case bucketOf (path f) of
        TestBucket \<Rightarrow> w1\<lparr>test := test w1 + wt\<rparr>
      | DocsBucket \<Rightarrow> w1\<lparr>docs := docs w1 + wt\<rparr>
      | ConfigBucket \<Rightarrow> w1\<lparr>config := config w1 + wt\<rparr>
      | CodeBucket \<Rightarrow> w1\<lparr>code := code w1 + wt\<rparr>)"

text \<open>
  \<^verbatim>\<open>ratio(value) > 0.5\<close> with \<^verbatim>\<open>ratio = total > 0 ? value / total : 0\<close>. The weights are
  whole numbers; for a total below \<open>2^53\<close> the rounded quotient exceeds one half exactly
  when twice the value exceeds the total, which is how the test is written here.
\<close>

definition moreThanHalf :: "nat \<Rightarrow> nat \<Rightarrow> bool" where
  "moreThanHalf v tot \<longleftrightarrow> tot > 0 \<and> 2 * v > tot"

definition deriveType :: "PreprocessResult \<Rightarrow> jsstr" where
  "deriveType diff =
     (let w = foldl addFile \<lparr>test = 0, docs = 0, config = 0, code = 0, total = 0\<rparr> (files diff) in
      if moreThanHalf (test w) (total w) then js ''test''
      else if moreThanHalf (docs w) (total w) then js ''docs''
      else if moreThanHalf (config w) (total w) then js ''chore''
      else if totalDeletions diff > totalAdditions diff then js ''refactor''
      else js ''feat'')"

text \<open>The share of a bucket, as the specification words it: the summed weight of the
  files the path rules put into the bucket.\<close>

definition bucketWeight :: "bucket \<Rightarrow> FileSummary list \<Rightarrow> nat" where
  "bucketWeight b fs = sum_list (map typeWeight (filter (\<lambda>f. bucketOf (path f) = b) fs))"

definition totalWeight :: "FileSummary list \<Rightarrow> nat" where
  "totalWeight fs = sum_list (map typeWeight fs)"

section \<open>Example inputs\<close>

text \<open>A file as \<^verbatim>\<open>summarizeFileBlock\<close> returns it when no keyword, label or highlight was
  found and no structural pattern matched (weight 1).\<close>

definition changedFile :: "jsstr \<Rightarrow> nat \<Rightarrow> nat \<Rightarrow> FileSummary" where
  "changedFile p a d =
     \<lparr>path = p, changeType = Modified, additions = a, deletions = d,
      contextLabels = [], highlights = [], keywordList = [], weight = 1\<rparr>"

text \<open>The summary of a diff without lockfiles, with the totals \<^verbatim>\<open>preprocessDiff\<close> adds up.\<close>

definition diffOf :: "FileSummary list \<Rightarrow> PreprocessResult" where
  "diffOf fs =
     \<lparr>files = fs, lockfileSummaries = [],
      totalAdditions = sum_list (map additions fs),
      totalDeletions = sum_list (map deletions fs)\<rparr>"

definition scopeExample :: PreprocessResult where
  "scopeExample = diffOf [changedFile (js ''docs/a.md'') 1 0, changedFile (js ''src/b.ts'') 40 5]"

definition specMdExample :: PreprocessResult where
  "specMdExample = diffOf [changedFile (js ''spec.md'') 20 0]"

text \<open>Two Markdown files, the second one renamed without a changed line (weight 2).\<close>

definition guidesExample :: PreprocessResult where
  "guidesExample =
     diffOf [changedFile (js ''guide.md'') 20 0,
             (changedFile (js ''notes/Changes.MD'') 0 0)\<lparr>changeType := Renamed, weight := 2\<rparr>]"

text \<open>One source file with 100 added lines and two Markdown files with one added line each:
  two of three files are documentation, two of 102 changed lines are.\<close>

definition linesExample :: PreprocessResult where
  "linesExample =
     diffOf [changedFile (js ''src/a.ts'') 100 0, changedFile (js ''docs/x.md'') 1 0,
             changedFile (js ''docs/y.md'') 1 0]"

text \<open>A source file with three added lines and a file without changed lines and with
  weight 5; and three files with neither changed lines nor weight.\<close>

definition weightExample :: PreprocessResult where
  "weightExample =
     diffOf [changedFile (js ''src/a.ts'') 3 0,
             (changedFile (js ''docs/logo.png'') 0 0)\<lparr>weight := 5\<rparr>]"

definition weightlessExample :: PreprocessResult where
  "weightlessExample =
     diffOf [(changedFile (js ''src/a.ts'') 0 0)\<lparr>weight := 0\<rparr>,
             (changedFile (js ''package.json'') 0 0)\<lparr>weight := 0\<rparr>,
             (changedFile (js ''tsconfig.json'') 0 0)\<lparr>weight := 0\<rparr>]"

text \<open>Two source files that lose more lines than they gain.\<close>

definition shrinkExample :: PreprocessResult where
  "shrinkExample = diffOf [changedFile (js ''src/a.ts'') 1 9, changedFile (js ''src/b.ts'') 0 3]"

section \<open>Line reconciler\<close>

text \<open>\<^verbatim>\<open>parseDiffLines\<close> and \<^verbatim>\<open>normalizeLine\<close> of \<^verbatim>\<open>src/src/preprocess.ts\<close> (lines 238 to
  296).\<close>

text \<open>\<^verbatim>\<open>normalizeLine\<close>: \<^verbatim>\<open>line.replace(/\s+/g, ' ').trim()\<close>.\<close>

definition normalizeLine :: "jsstr \<Rightarrow> jsstr" where
  "normalizeLine line = trim (replaceRuns isSpace [32] line)"

text \<open>
  \<^verbatim>\<open>Map<string, number>\<close>: entries in insertion order; \<^verbatim>\<open>set\<close> of a present key keeps its
  place.
\<close>

type_synonym countMap = "(jsstr \<times> nat) list"

definition mapGet :: "countMap \<Rightarrow> jsstr \<Rightarrow> nat option" where
  "mapGet m k = map_of m k"

fun mapSet :: "countMap \<Rightarrow> jsstr \<Rightarrow> nat \<Rightarrow> countMap" where
  "mapSet [] k v = [(k, v)]"
| "mapSet ((k', v') # m) k v = (if k' = k then (k, v) # m else (k', v') # mapSet m k v)"

text \<open>\<^verbatim>\<open>Number(digits)\<close> of a run of decimal digits.\<close>

definition decimalValue :: "jsstr \<Rightarrow> nat" where
  "decimalValue ds = foldl (\<lambda>n d. 10 * n + (d - 48)) 0 ds"

text \<open>\<^verbatim>\<open>/\+([0-9]+)(?:,([0-9]+))?/.exec(line)\<close>, capture 1: the digits after the first plus
  sign that is followed by a digit.\<close>

fun findPlusNumber :: "jsstr \<Rightarrow> nat option" where
  "findPlusNumber [] = None"
| "findPlusNumber (c # cs) =
     (if c = 43 \<and> takeWhile isDigit cs \<noteq> [] then Some (decimalValue (takeWhile isDigit cs))
      else findPlusNumber cs)"

record DiffLines =
  lineAdditions :: nat
  lineDeletions :: nat
  cleanedLines :: "jsstr list"
  hunkStarts :: "nat list"
  addedLines :: "jsstr list"
  removedLines :: "jsstr list"

text \<open>The body of the first loop of \<^verbatim>\<open>parseDiffLines\<close>; \<^verbatim>\<open>cleanedLines\<close> stays empty
  in it.\<close>

definition scanLine :: "DiffLines \<Rightarrow> jsstr \<Rightarrow> DiffLines" where
  "scanLine st line =
     (if startsWith line (js ''@@'') then
        (case findPlusNumber line of
           Some n \<Rightarrow> st\<lparr>hunkStarts := hunkStarts st @ [n]\<rparr>
         | None \<Rightarrow> st)
      else if startsWith line (js ''+++'') \<or> startsWith line (js ''---'') then st
      else if startsWith line (js ''+'') then
        st\<lparr>lineAdditions := lineAdditions st + 1, addedLines := addedLines st @ [drop 1 line]\<rparr>
      else if startsWith line (js ''-'') then
        st\<lparr>lineDeletions := lineDeletions st + 1, removedLines := removedLines st @ [drop 1 line]\<rparr>
      else st)"

text \<open>The second loop: the multiset of the removed lines, by normalized text.\<close>

fun countRemoved :: "countMap \<Rightarrow> jsstr list \<Rightarrow> countMap" where
  "countRemoved m [] = m"
| "countRemoved m (line # rest) =
     (let key = normalizeLine line in
      countRemoved (mapSet m key ((case mapGet m key of None \<Rightarrow> 0 | Some n \<Rightarrow> n) + 1)) rest)"

text \<open>The third loop: an added line whose normalized text still has a count among the
  removed lines is dropped and the count goes down; the others are kept.\<close>

fun cancelAdded :: "countMap \<Rightarrow> jsstr list \<Rightarrow> jsstr list \<Rightarrow> jsstr list \<times> countMap" where
  "cancelAdded m [] cleaned = (cleaned, m)"
| "cancelAdded m (line # rest) cleaned =
     (let key = normalizeLine line in
      case mapGet m key of
        None \<Rightarrow> cancelAdded m rest (cleaned @ [line])
      | Some n \<Rightarrow>
          if n > 0 then cancelAdded (mapSet m key (n - 1)) rest cleaned
          else cancelAdded m rest (cleaned @ [line]))"

text \<open>The last loop: the entries that still have a count, marked with a minus sign.\<close>

definition leftoverRemoved :: "countMap \<Rightarrow> jsstr list" where
  "leftoverRemoved m = map (\<lambda>(line, n). 45 # line) (filter (\<lambda>(line, n). n > 0) m)"

definition parseDiffLines :: "jsstr \<Rightarrow> DiffLines" where
  "parseDiffLines block =
     (let lines = split 10 block;
          st = foldl scanLine
                 \<lparr>lineAdditions = 0, lineDeletions = 0, cleanedLines = [], hunkStarts = [],
                  addedLines = [], removedLines = []\<rparr> lines;
          removedSet = countRemoved [] (removedLines st);
          (cleaned, removedSet') = cancelAdded removedSet (addedLines st) []
      in st\<lparr>cleanedLines := cleaned @ leftoverRemoved removedSet'\<rparr>)"

section \<open>Lockfile summarizer\<close>

text \<open>\<^verbatim>\<open>path.basename\<close> of Node, POSIX flavour: trailing slashes are dropped, then the part
  after the last slash is taken.\<close>

definition basename :: "jsstr \<Rightarrow> jsstr" where
  "basename p = lastSegment (rev (dropWhile (\<lambda>c. c = 47) (rev p)))"

text \<open>\<^verbatim>\<open>/version:/i.test(s) || /"version"\s*:/i.test(s)\<close>.\<close>

definition quotedVersionAt :: "jsstr \<Rightarrow> bool" where
  "quotedVersionAt s \<longleftrightarrow>
     prefix ([34] @ js ''version'' @ [34]) s \<and>
     (case dropWhile isSpace (drop 9 s) of [] \<Rightarrow> False | c # _ \<Rightarrow> c = 58)"

definition hasVersionField :: "jsstr \<Rightarrow> bool" where
  "hasVersionField s \<longleftrightarrow>
     includesStr (asciiLower s) (js ''version:'') \<or> matchesSomewhere quotedVersionAt (asciiLower s)"

text \<open>The dot of a regular expression matches every code unit but a line terminator.\<close>

definition isLineTerminator :: "nat \<Rightarrow> bool" where
  "isLineTerminator c \<longleftrightarrow> c = 10 \<or> c = 13 \<or> c = 8232 \<or> c = 8233"

text \<open>
  \<^verbatim>\<open>s.match(/\/(.+?)@/)\<close>, capture 1. After a slash the lazy group takes one character and
  then as few more as needed to reach an at sign; it cannot cross a line terminator. When
  the attempt at one slash fails, the search goes on behind it.
\<close>

fun lazyUntilAt :: "jsstr \<Rightarrow> jsstr \<Rightarrow> jsstr option" where
  "lazyUntilAt taken [] = None"
| "lazyUntilAt taken (c # cs) =
     (if c = 64 then Some (rev taken)
      else if isLineTerminator c then None
      else lazyUntilAt (c # taken) cs)"

definition packageAfterSlash :: "jsstr \<Rightarrow> jsstr option" where
  "packageAfterSlash s =
     (case s of [] \<Rightarrow> None | c # cs \<Rightarrow> if isLineTerminator c then None else lazyUntilAt [c] cs)"

fun packageMatch :: "jsstr \<Rightarrow> jsstr option" where
  "packageMatch [] = None"
| "packageMatch (c # cs) =
     (if c = 47 then (case packageAfterSlash cs of Some p \<Rightarrow> Some p | None \<Rightarrow> packageMatch cs)
      else packageMatch cs)"

text \<open>\<^verbatim>\<open>String(n)\<close> of a whole number.\<close>

fun showNat :: "nat \<Rightarrow> jsstr" where
  "showNat n = (if n < 10 then [48 + n] else showNat (n div 10) @ [48 + n mod 10])"

declare showNat.simps [simp del]

record lockScan =
  addVersions :: nat
  removeVersions :: nat
  packages :: "jsstr list"

text \<open>The body of the loop of \<^verbatim>\<open>summarizeLockfile\<close>.\<close>

definition scanLockLine :: "lockScan \<Rightarrow> jsstr \<Rightarrow> lockScan" where
  "scanLockLine st line =
     (if startsWith line (js ''+'') \<or> startsWith line (js ''-'') then
        let trimmed = drop 1 line;
            st1 = (if hasVersionField trimmed then
                     let st0 = (if startsWith line (js ''+'')
                                then st\<lparr>addVersions := addVersions st + 1\<rparr> else st)
                     in (if startsWith line (js ''-'')
                         then st0\<lparr>removeVersions := removeVersions st0 + 1\<rparr> else st0)
                   else st)
        in (case packageMatch trimmed of
              Some p \<Rightarrow> if p \<noteq> [] then st1\<lparr>packages := setAdd (packages st1) p\<rparr> else st1
            | None \<Rightarrow> st1)
      else st)"

definition summarizeLockfile :: "jsstr \<Rightarrow> jsstr \<Rightarrow> jsstr list" where
  "summarizeLockfile block filePath =
     (let base = basename filePath;
          lines = split 10 block;
          st = foldl scanLockLine \<lparr>addVersions = 0, removeVersions = 0, packages = []\<rparr> lines;
          totalUpdates = max (addVersions st) (max (removeVersions st) (length (packages st)))
      in if totalUpdates = 0 then [base @ js '': lockfile updated'']
         else
           let pkgSnippet =
                 (if length (packages st) > 0
                  then js '' ('' @ join (js '', '') (take 3 (packages st)) @
                       (if length (packages st) > 3 then js '', ...'' else []) @ js '')''
                  else [])
           in [base @ js '': '' @ showNat totalUpdates @ js '' version entries updated'' @ pkgSnippet])"

text \<open>What the specification counts in a lockfile block: the added and the removed lines
  that hold a version field, and the package names found in added or removed lines, each
  once, in the order of their first occurrence.\<close>

definition isChangeLine :: "jsstr \<Rightarrow> bool" where
  "isChangeLine line \<longleftrightarrow> startsWith line (js ''+'') \<or> startsWith line (js ''-'')"

definition versionAdditions :: "jsstr \<Rightarrow> nat" where
  "versionAdditions block =
     length (filter (\<lambda>line. startsWith line (js ''+'') \<and> hasVersionField (drop 1 line))
               (split 10 block))"

definition versionRemovals :: "jsstr \<Rightarrow> nat" where
  "versionRemovals block =
     length (filter (\<lambda>line. startsWith line (js ''-'') \<and> hasVersionField (drop 1 line))
               (split 10 block))"

definition packageNames :: "jsstr \<Rightarrow> jsstr list" where
  "packageNames block =
     foldl setAdd []
       (List.map_filter (\<lambda>line. if isChangeLine line then packageMatch (drop 1 line) else None)
          (split 10 block))"

definition reorderExample :: jsstr where
  "reorderExample = js ''@@ -1,2 +1,2 @@'' @ [10] @ js ''-foo();'' @ [10] @ js ''-bar();'' @ [10] @
                    js ''+bar();'' @ [10] @ js ''+  foo();''"

definition lockExample :: jsstr where
  "lockExample = js ''@@ -1 +1 @@'' @ [10] @ js ''-  /lodash@4.17.20:'' @ [10] @
                 js ''+  /lodash@4.17.21:''"

text \<open>The count a map holds for a key, \<open>0\<close> for a key it lacks.\<close>

definition countOf :: "countMap \<Rightarrow> jsstr \<Rightarrow> nat" where
  "countOf m k = (case map_of m k of None \<Rightarrow> 0 | Some n \<Rightarrow> n)"

section \<open>Generation: model calls and cancellation\<close>

text \<open>
  \<^verbatim>\<open>generateCommitMessage\<close> is asynchronous; what it observes from outside is the abort
  signal, the chunks of the streaming completion, whether that completion throws, and the
  result of the non-streaming retry. A run fixes these. Time is counted in observations:
  \<open>0\<close> is the check on entry, the check before chunk \<open>i\<close> (from \<open>0\<close>) is at \<open>i + 1\<close>, the
  stream ends or throws at the time after its last chunk, and the retry settles one step
  later. \<^verbatim>\<open>AbortSignal.aborted\<close> never goes back to false, so the signal is given by the
  time of the abort, if any.
\<close>

record modelRun =
  abortAt :: "nat option"
  streamChunks :: "jsstr list"
  streamThrows :: bool
  retryContent :: "jsstr option"

definition aborted :: "modelRun \<Rightarrow> nat \<Rightarrow> bool" where
  "aborted r t = (case abortAt r of None \<Rightarrow> False | Some t0 \<Rightarrow> t0 \<le> t)"

datatype failure = InferenceAborted | EngineFailure

datatype engineCall = StreamingCall jsstr | PlainCall jsstr

record generation =
  outcome :: "failure + jsstr"
  engineCalls :: "engineCall list"
  settledAt :: nat

text \<open>The \<^verbatim>\<open>for await\<close> loop: before a chunk is used the signal is read; when it is
  aborted the loop throws \<^verbatim>\<open>Inference aborted\<close>.\<close>

fun consume :: "modelRun \<Rightarrow> nat \<Rightarrow> jsstr list \<Rightarrow> jsstr \<Rightarrow> (failure + jsstr) \<times> nat" where
  "consume r t [] content = (Inr content, t)"
| "consume r t (delta # rest) content =
     (if aborted r t then (Inl InferenceAborted, t)
      else consume r (Suc t) rest (content @ delta))"

text \<open>The end of the function, after the \<^verbatim>\<open>try\<close> statement: the signal is read once
  more, then the content is sanitized and normalized.\<close>

definition finish ::
  "modelRun \<Rightarrow> (jsstr \<Rightarrow> jsstr) \<Rightarrow> nat \<Rightarrow> jsstr \<Rightarrow> engineCall list \<Rightarrow> generation" where
  "finish r finalize t content calls =
     (if aborted r t then \<lparr>outcome = Inl InferenceAborted, engineCalls = calls, settledAt = t\<rparr>
      else \<lparr>outcome = Inr (finalize content), engineCalls = calls, settledAt = t\<rparr>)"

text \<open>
  The control flow of \<^verbatim>\<open>generateCommitMessage\<close>, the same in both variants. The prompt
  (system and user text) is built before the first call; \<open>fallback\<close> is the message the
  inner \<^verbatim>\<open>catch\<close> returns (built from the diff alone) and \<open>finalize\<close> is what the last lines
  make of the model's content; both are pure string functions of the diff and the
  configuration, modelled in the sections on the normalizer.
\<close>

definition generateCommitMessage ::
  "modelRun \<Rightarrow> jsstr \<Rightarrow> jsstr \<Rightarrow> (jsstr \<Rightarrow> jsstr) \<Rightarrow> generation" where
  "generateCommitMessage r prompt fallback finalize =
     (if aborted r 0 then \<lparr>outcome = Inl InferenceAborted, engineCalls = [], settledAt = 0\<rparr>
      else
        let (streamed, t) = consume r 1 (streamChunks r) [];
            tried = (case streamed of
                       Inl e \<Rightarrow> Inl e
                     | Inr content \<Rightarrow> if streamThrows r then Inl EngineFailure else Inr content)
        in case tried of
             Inr content \<Rightarrow> finish r finalize t content [StreamingCall prompt]
           | Inl error \<Rightarrow>
               if aborted r t
               then \<lparr>outcome = Inl error, engineCalls = [StreamingCall prompt], settledAt = t\<rparr>
               else
                 (case retryContent r of
                    Some content \<Rightarrow>
                      finish r finalize (Suc t) content [StreamingCall prompt, PlainCall prompt]
                  | None \<Rightarrow>
                      \<lparr>outcome = Inr fallback,
                       engineCalls = [StreamingCall prompt, PlainCall prompt],
                       settledAt = Suc t\<rparr>))"

text \<open>A run in which the streaming call throws at once, the user cancels while the retry is
  in flight, and the retry throws as well.\<close>

definition cancelDuringRetry :: modelRun where
  "cancelDuringRetry =
     \<lparr>abortAt = Some 2, streamChunks = [], streamThrows = True, retryContent = None\<rparr>"

section \<open>Subject synthesis\<close>

text \<open>\<^verbatim>\<open>state.lang\<close> and \<^verbatim>\<open>promptConfig.subjectStyle\<close> are the two settings the functions
  below read; they are passed as arguments.\<close>

definition applySubjectStyle :: "lang \<Rightarrow> subjectStyle \<Rightarrow> jsstr \<Rightarrow> jsstr" where
  "applySubjectStyle lg style subject =
     (if style = Sentence \<and> lg = En
      then (case subject of [] \<Rightarrow> [] | c # cs \<Rightarrow> upperUnit c @ cs)
      else subject)"

text \<open>\<^verbatim>\<open>/updated implementation details|update logic|logic updated/i\<close>.\<close>

definition isGenericHighlight :: "jsstr \<Rightarrow> bool" where
  "isGenericHighlight highlight \<longleftrightarrow>
     (let h = asciiLower highlight in
        includesStr h (js ''updated implementation details'') \<or> includesStr h (js ''update logic'') \<or>
        includesStr h (js ''logic updated''))"

text \<open>\<^verbatim>\<open>\bword\b\<close> with the flag \<^verbatim>\<open>i\<close> matched at the head of a string whose preceding
  character is known: no word character before, the word itself, no word character after.\<close>

definition wordAt :: "bool \<Rightarrow> jsstr \<Rightarrow> jsstr \<Rightarrow> bool" where
  "wordAt prevIsWord w s \<longleftrightarrow>
     \<not> prevIsWord \<and> prefix w (asciiLower s) \<and>
     (case drop (length w) s of [] \<Rightarrow> True | d # _ \<Rightarrow> \<not> isWord d)"

text \<open>\<^verbatim>\<open>s.replace(/\bword\b/gi, '')\<close>: \<open>skip\<close> counts the characters of a match still to
  be dropped.\<close>

fun removeWordFrom :: "bool \<Rightarrow> nat \<Rightarrow> jsstr \<Rightarrow> jsstr \<Rightarrow> jsstr" where
  "removeWordFrom prevIsWord skip w [] = []"
| "removeWordFrom prevIsWord skip w (c # cs) =
     (if skip > 0 then removeWordFrom (isWord c) (skip - 1) w cs
      else if w \<noteq> [] \<and> wordAt prevIsWord w (c # cs)
           then removeWordFrom (isWord c) (length w - 1) w cs
      else c # removeWordFrom (isWord c) 0 w cs)"

definition removeWord :: "jsstr \<Rightarrow> jsstr \<Rightarrow> jsstr" where
  "removeWord w s = removeWordFrom False 0 w s"

text \<open>\<^verbatim>\<open>s.replace(/\s{2,}/g, ' ')\<close>: a run of two or more white-space characters becomes
  one space, a single one stays as it is.\<close>

fun squeezeSpacesFrom :: "bool \<Rightarrow> jsstr \<Rightarrow> jsstr" where
  "squeezeSpacesFrom inRun [] = []"
| "squeezeSpacesFrom inRun (c # cs) =
     (if isSpace c then
        (if inRun then squeezeSpacesFrom True cs
         else (case cs of
                 [] \<Rightarrow> [c]
               | d # _ \<Rightarrow> if isSpace d then 32 # squeezeSpacesFrom True cs
                          else c # squeezeSpacesFrom False cs))
      else c # squeezeSpacesFrom False cs)"

definition squeezeSpaces :: "jsstr \<Rightarrow> jsstr" where
  "squeezeSpaces s = squeezeSpacesFrom False s"

definition normalizeHighlight :: "jsstr \<Rightarrow> jsstr" where
  "normalizeHighlight highlight =
     (let cleaned = trim (squeezeSpaces
                      (removeWord (js ''file'')
                         (removeWord (js ''touched'') (removeWord (js ''updated'') highlight))))
      in if cleaned \<noteq> [] then cleaned else highlight)"

definition inferDefaultAction :: "jsstr \<Rightarrow> jsstr" where
  "inferDefaultAction filePath =
     (let lower = toLowerCase filePath in
      if endsWith lower (js ''.css'') \<or> endsWith lower (js ''.scss'') \<or>
         endsWith lower (js ''.sass'') \<or> endsWith lower (js ''.less'') then js ''styles''
      else if includesStr lower (js ''cmake'') \<or> includesStr lower (js ''makefile'') \<or>
              startsWith lower (js ''build/'') \<or> includesStr lower (js ''/build/'')
           then js ''build config''
      else if includesStr lower (js ''docs'') \<or> includesStr lower (js ''readme'') \<or>
              endsWith lower (js ''.md'') then js ''docs''
      else [])"

text \<open>\<^verbatim>\<open>xs[0] ?? ''\<close>.\<close>

definition firstOrEmpty :: "jsstr list \<Rightarrow> jsstr" where
  "firstOrEmpty xs = (case xs of [] \<Rightarrow> [] | x # _ \<Rightarrow> x)"

text \<open>\<^verbatim>\<open>highlights.find(item => !isGenericHighlight(item))\<close>, with \<^verbatim>\<open>undefined\<close> and the empty
  string both read as "no highlight", as the callers do.\<close>

definition firstSpecificHighlight :: "jsstr list \<Rightarrow> jsstr" where
  "firstSpecificHighlight hs =
     (case List.find (\<lambda>item. \<not> isGenericHighlight item) hs of None \<Rightarrow> [] | Some h \<Rightarrow> h)"

definition buildSubjectFragment :: "FileSummary \<Rightarrow> jsstr" where
  "buildSubjectFragment file =
     (let base = lastSegment (path file);
          keyword = trim (firstOrEmpty (keywordList file));
          details1 = (if keyword \<noteq> [] then [keyword] else []);
          ctx = trim (firstOrEmpty (contextLabels file));
          details2 = (if ctx \<noteq> [] \<and> length details1 < 2 then details1 @ [ctx] else details1);
          highlight = firstSpecificHighlight (highlights file);
          cleanedHighlight = (if highlight \<noteq> [] then normalizeHighlight highlight else []);
          details3 = (if cleanedHighlight \<noteq> [] \<and> length details2 < 2
                      then details2 @ [cleanedHighlight] else details2);
          details4 = (if length details3 < 2
                      then (let fallbackAction = inferDefaultAction (path file) in
                            if fallbackAction \<noteq> [] then details3 @ [fallbackAction] else details3)
                      else details3)
      in trim (base @ [32] @ join [32] details4))"

definition buildDetailFragments :: "PreprocessResult \<Rightarrow> jsstr list" where
  "buildDetailFragments diff =
     filter (\<lambda>fragment. fragment \<noteq> []) (map buildSubjectFragment (take 5 (rankFiles (files diff))))"

text \<open>\<^verbatim>\<open>pickHighlight\<close>: \<open>None\<close> is \<^verbatim>\<open>null\<close>.\<close>

definition pickHighlight :: "PreprocessResult \<Rightarrow> jsstr option" where
  "pickHighlight diff =
     (let highlight = (case files diff of [] \<Rightarrow> [] | topFile # _ \<Rightarrow> firstSpecificHighlight (highlights topFile))
      in if highlight = [] then None else Some (normalizeHighlight highlight))"

definition deriveDetailedSubject :: "lang \<Rightarrow> subjectStyle \<Rightarrow> PreprocessResult \<Rightarrow> jsstr" where
  "deriveDetailedSubject lg style diff =
     applySubjectStyle lg style
       (case files diff of
          [] \<Rightarrow> js ''update implementation''
        | topFile # _ \<Rightarrow>
            let topHighlight = firstOrEmpty (highlights topFile);
                topContext = firstOrEmpty (contextLabels topFile);
                fileBase = lastSegment (path topFile)
            in if topHighlight \<noteq> [] \<and> \<not> isGenericHighlight topHighlight
               then (if topContext \<noteq> [] then topHighlight @ js '' in '' @ topContext
                     else topHighlight)
               else if topContext \<noteq> [] then js ''update '' @ topContext
               else js ''update '' @ fileBase)"

text \<open>The literals that depend on the language: \<^verbatim>\<open>update \<close> or U+66F4 U+65B0 and a space;
  \<^verbatim>\<open> and \<close> or U+4E0E between spaces; the joiner \<^verbatim>\<open>; \<close> or U+FF1B.\<close>

definition updateWord :: "lang \<Rightarrow> jsstr" where
  "updateWord lg = (case lg of Zh \<Rightarrow> [26356, 26032, 32] | En \<Rightarrow> js ''update '')"

definition andWord :: "lang \<Rightarrow> jsstr" where
  "andWord lg = (case lg of Zh \<Rightarrow> [32, 19982, 32] | En \<Rightarrow> js '' and '')"

definition fragmentJoiner :: "lang \<Rightarrow> jsstr" where
  "fragmentJoiner lg = (case lg of Zh \<Rightarrow> [65307] | En \<Rightarrow> js ''; '')"

subsection \<open>The single-line variant\<close>

text \<open>
  \<^verbatim>\<open>ensureSubjectLength\<close>, \<^verbatim>\<open>buildSpecificSubject\<close> and \<^verbatim>\<open>ensureSpecificSubject\<close> of the
  \<^verbatim>\<open>main.ts\<close> inside \<^verbatim>\<open>src/src/preprocess.ts\<close> (lines 1673 to 1938): a minimum length and no
  maximum. \<^verbatim>\<open>tokenSnippet\<close> takes six tokens, the lead-in is U+2014 between spaces followed
  by \<^verbatim>\<open>details: \<close>, or U+FF0C U+6D89 U+53CA U+FF1A.
\<close>

definition tokenSnippetOf :: "nat \<Rightarrow> jsstr list \<Rightarrow> jsstr" where
  "tokenSnippetOf n requiredTokens =
     (if length requiredTokens \<noteq> 0 then [32] @ join (js '', '') (take n requiredTokens) else [])"

definition detailsPrefix :: "lang \<Rightarrow> jsstr" where
  "detailsPrefix lg =
     (case lg of Zh \<Rightarrow> [65292, 28041, 21450, 65306] | En \<Rightarrow> [32, 8212, 32] @ js ''details: '')"

definition ensureSubjectLength1 ::
  "lang \<Rightarrow> jsstr \<Rightarrow> PreprocessResult \<Rightarrow> jsstr list \<Rightarrow> nat \<Rightarrow> jsstr" where
  "ensureSubjectLength1 lg subject diff requiredTokens minLength =
     (if minLength \<le> 0 \<or> length subject \<ge> minLength then subject
      else
        let fragments = buildDetailFragments diff;
            tokenSnippet = tokenSnippetOf 6 requiredTokens;
            detailText = (if length fragments \<noteq> 0 then join (fragmentJoiner lg) fragments else []);
            lead = detailsPrefix lg;
            expanded = collapseSpaces (subject @ lead @ detailText @ tokenSnippet)
        in if length expanded < minLength \<and> length fragments > 2
           then collapseSpaces
                  (subject @ lead @ join (fragmentJoiner lg) (take 4 fragments) @ tokenSnippet)
           else expanded)"

text \<open>The part of \<^verbatim>\<open>buildSpecificSubject\<close> that both variants share: the subject before
  length control, or the result when no fragment could be built.\<close>

datatype synthesis = Final jsstr | Draft jsstr

definition synthesize ::
  "lang \<Rightarrow> subjectStyle \<Rightarrow> PreprocessResult \<Rightarrow> jsstr list \<Rightarrow> int \<Rightarrow> synthesis" where
  "synthesize lg style diff requiredTokens requiredTokenCount =
     (let tokens = filter (\<lambda>t. t \<noteq> []) requiredTokens;
          rankedFiles = rankFiles (files diff);
          primaryFragment = (case rankedFiles of [] \<Rightarrow> [] | primary # _ \<Rightarrow> buildSubjectFragment primary);
          secondaryFragment = (case rankedFiles of
                                 _ # secondary # _ \<Rightarrow> buildSubjectFragment secondary
                               | _ \<Rightarrow> []);
          fallbackHighlight = pickHighlight diff
      in if primaryFragment = [] then
           (let base = deriveDetailedSubject lg style diff in
            if length tokens = 0 then Final base
            else
              let preferred = hd tokens;
                  subject = (case fallbackHighlight of
                               Some h \<Rightarrow> updateWord lg @ preferred @ [32] @ h
                             | None \<Rightarrow> updateWord lg @ preferred)
              in Final (applySubjectStyle lg style subject))
         else if requiredTokenCount > 1 \<and> (secondaryFragment \<noteq> [] \<or> length tokens \<ge> 2) then
           (let secondPair = (if secondaryFragment \<noteq> [] then secondaryFragment else tokens ! 1)
            in Draft (updateWord lg @ primaryFragment @ andWord lg @ secondPair))
         else Draft (updateWord lg @ primaryFragment))"

definition buildSpecificSubject1 ::
  "lang \<Rightarrow> subjectStyle \<Rightarrow> PreprocessResult \<Rightarrow> jsstr list \<Rightarrow> int \<Rightarrow> nat \<Rightarrow> jsstr" where
  "buildSpecificSubject1 lg style diff requiredTokens requiredTokenCount minSubjectLength =
     (case synthesize lg style diff requiredTokens requiredTokenCount of
        Final subject \<Rightarrow> subject
      | Draft subject \<Rightarrow>
          applySubjectStyle lg style
            (if minSubjectLength > 0
             then ensureSubjectLength1 lg subject diff requiredTokens minSubjectLength
             else subject))"

text \<open>\<^verbatim>\<open>needsFallback = reasons.length > 0\<close>.\<close>

definition ensureSpecificSubject1 ::
  "lang \<Rightarrow> subjectStyle \<Rightarrow> jsstr \<Rightarrow> jsstr list \<Rightarrow> int \<Rightarrow> nat \<Rightarrow> PreprocessResult \<Rightarrow> jsstr" where
  "ensureSpecificSubject1 lg style subject requiredTokens requiredTokenCount minSubjectLength diff =
     (let cleaned = trim subject;
          reasons = fallbackReasons cleaned requiredTokens requiredTokenCount minSubjectLength;
          needsFallback = (length reasons > 0)
      in if needsFallback
         then buildSpecificSubject1 lg style diff requiredTokens requiredTokenCount minSubjectLength
         else applySubjectStyle lg style
                (if minSubjectLength > 0
                 then ensureSubjectLength1 lg cleaned diff requiredTokens minSubjectLength
                 else cleaned))"

subsection \<open>The variant with a body and fixed bounds\<close>

text \<open>\<^verbatim>\<open>trimToMax\<close>, \<^verbatim>\<open>ensureSubjectLength\<close>, \<^verbatim>\<open>buildSpecificSubject\<close> and
  \<^verbatim>\<open>ensureSpecificSubject\<close> of \<^verbatim>\<open>src/src/webview/main.ts\<close> (lines 1040 to 1381).\<close>

text \<open>The separators of \<^verbatim>\<open>trimToMax\<close> in the order of the source: em dash between spaces,
  full-width comma, semicolon, comma, colon.\<close>

definition separators :: "jsstr list" where
  "separators = [[32, 8212, 32], [65292], [59], [44], [58]]"

text \<open>The loop over the separators: the first index of the separator decides; the loop
  goes on to the next separator when the separator is absent, starts the string, lies
  behind the limit or leaves a trimmed prefix of fewer than ten characters.\<close>

fun cutAtSeparator :: "jsstr \<Rightarrow> nat \<Rightarrow> jsstr list \<Rightarrow> jsstr option" where
  "cutAtSeparator v maxLength [] = None"
| "cutAtSeparator v maxLength (separator # rest) =
     (case indexOf v separator of
        None \<Rightarrow> cutAtSeparator v maxLength rest
      | Some index \<Rightarrow>
          if index > 0 \<and> index \<le> maxLength \<and> length (trim (take index v)) \<ge> 10
          then Some (trim (take index v))
          else cutAtSeparator v maxLength rest)"

text \<open>The class \<^verbatim>\<open>[\<dots>,;:\-\<dots>\s]\<close> of the final \<^verbatim>\<open>replace\<close>: full-width comma, comma,
  semicolon, colon, hyphen, en dash, em dash, white space.\<close>

definition isTrailing :: "nat \<Rightarrow> bool" where
  "isTrailing c \<longleftrightarrow>
     c = 65292 \<or> c = 44 \<or> c = 59 \<or> c = 58 \<or> c = 45 \<or> c = 8211 \<or> c = 8212 \<or> isSpace c"

definition trimToMax :: "jsstr \<Rightarrow> nat \<Rightarrow> jsstr" where
  "trimToMax v maxLength =
     (if maxLength \<le> 0 \<or> length v \<le> maxLength then v
      else (case cutAtSeparator v maxLength separators of
              Some trimmed \<Rightarrow> trimmed
            | None \<Rightarrow> trim (rev (dropWhile isTrailing (rev (take maxLength v))))))"

definition detailsLead :: "lang \<Rightarrow> jsstr" where
  "detailsLead lg = (case lg of Zh \<Rightarrow> [65292, 28041, 21450, 65306] | En \<Rightarrow> [32, 8212, 32])"

text \<open>The loop over the fragments: \<open>appended\<close> grows while the candidate with the fragments
  and the token snippet stays within the maximum.\<close>

fun appendFragments ::
  "jsstr \<Rightarrow> jsstr \<Rightarrow> jsstr \<Rightarrow> jsstr \<Rightarrow> nat \<Rightarrow> jsstr \<Rightarrow> jsstr list \<Rightarrow> jsstr" where
  "appendFragments candidate lead joiner tokenSnippet maxLength appended [] = appended"
| "appendFragments candidate lead joiner tokenSnippet maxLength appended (fragment # rest) =
     (let next = (if appended \<noteq> [] then appended @ joiner @ fragment else fragment);
          nextCandidate = collapseSpaces (candidate @ lead @ next @ tokenSnippet)
      in if maxLength > 0 \<and> length nextCandidate > maxLength then appended
         else appendFragments candidate lead joiner tokenSnippet maxLength next rest)"

definition ensureSubjectLength2 ::
  "lang \<Rightarrow> jsstr \<Rightarrow> PreprocessResult \<Rightarrow> jsstr list \<Rightarrow> nat \<Rightarrow> nat \<Rightarrow> jsstr" where
  "ensureSubjectLength2 lg subject diff requiredTokens minLength maxLength =
     (let candidate = (if maxLength > 0 \<and> length subject > maxLength
                       then trimToMax subject maxLength else subject)
      in if minLength \<le> 0 \<or> length candidate \<ge> minLength then candidate
         else
           let fragments = buildDetailFragments diff;
               tokenSnippet = tokenSnippetOf 4 requiredTokens;
               joiner = fragmentJoiner lg;
               lead = detailsLead lg;
               appended = appendFragments candidate lead joiner tokenSnippet maxLength [] fragments;
               expanded = (if appended \<noteq> []
                           then collapseSpaces (candidate @ lead @ appended @ tokenSnippet)
                           else candidate)
           in if minLength > 0 \<and> length expanded < minLength \<and> tokenSnippet \<noteq> [] \<and>
                 \<not> includesStr expanded (trim tokenSnippet)
              then (let padded = collapseSpaces (expanded @ tokenSnippet)
                    in if maxLength > 0 then trimToMax padded maxLength else padded)
              else expanded)"

definition buildSpecificSubject2 ::
  "lang \<Rightarrow> subjectStyle \<Rightarrow> PreprocessResult \<Rightarrow> jsstr list \<Rightarrow> int \<Rightarrow> nat \<Rightarrow> nat \<Rightarrow> jsstr" where
  "buildSpecificSubject2 lg style diff requiredTokens requiredTokenCount minSubjectLength
       maxSubjectLength =
     (case synthesize lg style diff requiredTokens requiredTokenCount of
        Final subject \<Rightarrow> subject
      | Draft subject \<Rightarrow>
          applySubjectStyle lg style
            (if minSubjectLength > 0 \<or> maxSubjectLength > 0
             then ensureSubjectLength2 lg subject diff requiredTokens minSubjectLength
                    maxSubjectLength
             else subject))"

text \<open>\<^verbatim>\<open>needsFallback = reasons.some(reason => reason !== 'tooShort')\<close>.\<close>

definition ensureSpecificSubject2 ::
  "lang \<Rightarrow> subjectStyle \<Rightarrow> jsstr \<Rightarrow> jsstr list \<Rightarrow> int \<Rightarrow> nat \<Rightarrow> nat \<Rightarrow> PreprocessResult \<Rightarrow> jsstr"
  where
  "ensureSpecificSubject2 lg style subject requiredTokens requiredTokenCount minSubjectLength
       maxSubjectLength diff =
     (let cleaned = trim subject;
          reasons = fallbackReasons cleaned requiredTokens requiredTokenCount minSubjectLength;
          needsFallback = list_ex (\<lambda>reason. reason \<noteq> TooShort) reasons
      in if needsFallback
         then buildSpecificSubject2 lg style diff requiredTokens requiredTokenCount
                minSubjectLength maxSubjectLength
         else applySubjectStyle lg style
                (if minSubjectLength > 0 \<or> maxSubjectLength > 0
                 then ensureSubjectLength2 lg cleaned diff requiredTokens minSubjectLength
                        maxSubjectLength
                 else cleaned))"

subsection \<open>Required tokens of a diff\<close>

text \<open>The first loop of \<^verbatim>\<open>buildRequiredTokens\<close>, for one file: base name, two keywords,
  two context labels, top-level directory.\<close>

definition fileTokens :: "FileSummary \<Rightarrow> jsstr list" where
  "fileTokens file =
     (let parts = split 47 (path file);
          base = last parts;
          topDir = (if length parts > 1 then hd parts else [])
      in (if base \<noteq> [] then [base] else []) @
         filter (\<lambda>keyword. keyword \<noteq> []) (take 2 (keywordList file)) @
         filter (\<lambda>label. label \<noteq> []) (take 2 (contextLabels file)) @
         (if topDir \<noteq> [] \<and> topDir \<noteq> base then [topDir] else []))"

text \<open>The final \<^verbatim>\<open>filter\<close>: a token whose lower-case form was seen is dropped; otherwise the
  form is recorded and the token is kept when it has more than one character.\<close>

fun dedupeTokens :: "jsstr list \<Rightarrow> jsstr list \<Rightarrow> jsstr list" where
  "dedupeTokens seen [] = []"
| "dedupeTokens seen (token # rest) =
     (let normalized = toLowerCase token in
      if normalized \<in> set seen then dedupeTokens seen rest
      else (if length token > 1 then [token] else []) @ dedupeTokens (seen @ [normalized]) rest)"

definition buildRequiredTokens :: "FileSummary list \<Rightarrow> jsstr list" where
  "buildRequiredTokens fs = dedupeTokens [] (concat (map fileTokens fs))"

text \<open>What \<^verbatim>\<open>generateCommitMessage\<close> derives from a diff, in both variants: the tokens of
  the three highest-ranked files and the required count.\<close>

definition requiredTokensOf :: "PreprocessResult \<Rightarrow> jsstr list" where
  "requiredTokensOf diff = buildRequiredTokens (take 3 (rankFiles (files diff)))"

definition requiredTokenCountOf :: "PreprocessResult \<Rightarrow> int" where
  "requiredTokenCountOf diff = (if length (files diff) > 10 then 2 else 1)"

text \<open>One file with 1800 changed lines: the change magnitude of the single-line variant
  is \<open>1 + 9 = 10\<close>, so its minimum subject length is 300.\<close>

definition bigChangeExample :: PreprocessResult where
  "bigChangeExample = diffOf [changedFile (js ''src/parser.rs'') 1500 300]"








text \<open>\<^verbatim>\<open>minSubjectLength\<close> of the single-line variant:
  \<^verbatim>\<open>files.length + Math.round((totalAdditions + totalDeletions) / 200) >= 10 ? 300 : 0\<close>;
  \<^verbatim>\<open>Math.round\<close> rounds a half up.\<close>

definition minSubjectLengthOf :: "PreprocessResult \<Rightarrow> nat" where
  "minSubjectLengthOf diff =
     (let changeMagnitude = length (files diff) + (totalAdditions diff + totalDeletions diff + 100) div 200
      in if changeMagnitude \<ge> 10 then 300 else 0)"



section \<open>Normal forms as words\<close>

text \<open>
  Two devices of the proofs. The first is a lower-casing that works code unit by code unit
  and only knows the code units whose lower-case form holds an ASCII letter: the ASCII
  capitals, the Kelvin sign and the dotted capital I. It agrees with \<open>toLowerCase\<close> on every
  ASCII letter and digit of the result and on where the other characters stand, which is
  all a normal form depends on.
\<close>

definition foldUnit :: "nat \<Rightarrow> jsstr" where
  "foldUnit c =
     (if 65 \<le> c \<and> c \<le> 90 then [c + 32]
      else if c = 8490 then [107]
      else if c = 304 then [105, 775]
      else [c])"

definition foldUnits :: "jsstr \<Rightarrow> jsstr" where
  "foldUnits s = concat (map foldUnit s)"

text \<open>
  The second is a description of the two normalizations: the characters that
  are kept are copied, and every gap between two kept characters becomes one space. The
  state says whether a kept character has been copied and whether a gap is pending.
  \<open>collapseSpaces\<close> keeps what is not white space; \<open>normalizeForMatch\<close> keeps, after
  lower-casing, the letters and digits.
\<close>

fun gapWords :: "(nat \<Rightarrow> bool) \<Rightarrow> bool \<Rightarrow> bool \<Rightarrow> jsstr \<Rightarrow> jsstr" where
  "gapWords keep started pending [] = []"
| "gapWords keep started pending (c # cs) =
     (if keep c then (if started \<and> pending then [32, c] else [c]) @ gapWords keep True False cs
      else gapWords keep started True cs)"

fun gapState :: "(nat \<Rightarrow> bool) \<Rightarrow> bool \<times> bool \<Rightarrow> jsstr \<Rightarrow> bool \<times> bool" where
  "gapState keep st [] = st"
| "gapState keep st (c # cs) =
     gapState keep (if keep c then (True, False) else (fst st, True)) cs"

text \<open>
  The normal form as the amended claim words it. The text is lower-cased; a word is a
  maximal run of the ASCII letters \<open>a\<close> to \<open>z\<close> and the digits \<open>0\<close> to \<open>9\<close>; the normal form is
  the words in their order with one space between two of them. Every other character, a
  letter of another script included, only separates words, and nothing stands before the
  first word or behind the last one.
\<close>

definition asciiLetterOrDigit :: "nat \<Rightarrow> bool" where
  "asciiLetterOrDigit c \<longleftrightarrow> (97 \<le> c \<and> c \<le> 122) \<or> (48 \<le> c \<and> c \<le> 57)"

fun wordsFrom :: "(nat \<Rightarrow> bool) \<Rightarrow> jsstr \<Rightarrow> jsstr \<Rightarrow> jsstr list" where
  "wordsFrom P word [] = (if word = [] then [] else [word])"
| "wordsFrom P word (c # cs) =
     (if P c then wordsFrom P (word @ [c]) cs
      else (if word = [] then [] else [word]) @ wordsFrom P [] cs)"

definition matchForm :: "jsstr \<Rightarrow> jsstr" where
  "matchForm text = join [32] (wordsFrom asciiLetterOrDigit [] (toLowerCase text))"

text \<open>
  The normal form as the claim words it: lower-cased, every run of characters that are not
  letters or digits replaced by one space. A run at the start or at the end of the text
  leaves its space.
\<close>

fun spaceRuns :: "bool \<Rightarrow> jsstr \<Rightarrow> jsstr" where
  "spaceRuns inRun [] = []"
| "spaceRuns inRun (c # cs) =
     (if asciiLetterOrDigit c then c # spaceRuns False cs
      else (if inRun then [] else [32]) @ spaceRuns True cs)"

definition statedForm :: "jsstr \<Rightarrow> jsstr" where
  "statedForm text = spaceRuns False (toLowerCase text)"

text \<open>The four variants taken of the token as it is.\<close>

definition statedVariants :: "jsstr \<Rightarrow> jsstr list" where
  "statedVariants token =
     [token, stripLeadingMarks token, lastSegment token, stripExtension (lastSegment token)]"

text \<open>
  The four variants of a token as the specification lists them: the token, the token
  without leading dots, hashes and slashes, its last path segment, and that segment without
  its extension. As in the code, white space around the token is dropped first. A variant
  matches when its normal form has at least three characters and occurs in the normalized
  subject.
\<close>

definition variantsOfToken :: "jsstr \<Rightarrow> jsstr list" where
  "variantsOfToken token =
     (let t = trim token in [t, stripLeadingMarks t, lastSegment t, stripExtension (lastSegment t)])"

definition variantMatches :: "jsstr \<Rightarrow> jsstr \<Rightarrow> bool" where
  "variantMatches normalizedSubject variant \<longleftrightarrow>
     3 \<le> length (matchForm variant) \<and> sublist (matchForm variant) normalizedSubject"

definition tokenMatched :: "jsstr \<Rightarrow> jsstr \<Rightarrow> bool" where
  "tokenMatched subject token \<longleftrightarrow>
     list_ex (variantMatches (matchForm subject)) (variantsOfToken token)"

text \<open>A token of four Chinese characters (U+8BF4 U+660E U+6587 U+6863) and a subject that
  holds it: U+66F4 U+65B0, a space, and the token.\<close>

definition chineseToken :: jsstr where
  "chineseToken = [35828, 26126, 25991, 26723]"

definition chineseSubject :: jsstr where
  "chineseSubject = [26356, 26032, 32] @ chineseToken"

text \<open>A diff with one top-level file named \<^verbatim>\<open>sh\<close>, and one whose only file is a Markdown
  file with a Chinese name (U+8BF4 U+660E, then \<^verbatim>\<open>.md\<close>).\<close>

definition twoLetterExample :: PreprocessResult where
  "twoLetterExample = diffOf [changedFile (js ''sh'') 3 1]"

definition chineseNameExample :: PreprocessResult where
  "chineseNameExample = diffOf [changedFile ([35828, 26126] @ js ''.md'') 12 0]"

text \<open>The characters of the separators of \<^verbatim>\<open>trimToMax\<close>: em dash, full-width comma,
  semicolon, comma, colon.\<close>

definition separatorUnits :: "nat list" where
  "separatorUnits = [8212, 65292, 59, 44, 58]"

text \<open>A code unit whose folded form holds no letter or digit.\<close>

definition gapUnit :: "nat \<Rightarrow> bool" where
  "gapUnit c \<longleftrightarrow> list_all (\<lambda>d. \<not> isLowerAlnum d) (foldUnit c)"

text \<open>The base names of the two highest-ranked files.\<close>

definition primaryBase :: "PreprocessResult \<Rightarrow> jsstr" where
  "primaryBase diff = lastSegment (path (hd (rankFiles (files diff))))"

definition secondaryBase :: "PreprocessResult \<Rightarrow> jsstr" where
  "secondaryBase diff = lastSegment (path (rankFiles (files diff) ! 1))"

text \<open>
  The part of a synthesized subject that has to survive length control: the verb and the
  base name of the highest-ranked file; with more than ten files, when two tokens are
  required, the verb, the fragment of the highest-ranked file, the conjunction and the
  base name of the second file.
\<close>

definition subjectHead :: "lang \<Rightarrow> PreprocessResult \<Rightarrow> jsstr" where
  "subjectHead lg diff =
     (if length (files diff) \<le> 10 then updateWord lg @ trim (primaryBase diff)
      else updateWord lg @ buildSubjectFragment (hd (rankFiles (files diff))) @ andWord lg @
           trim (secondaryBase diff))"

text \<open>The subject that \<^verbatim>\<open>buildSpecificSubject\<close> puts together before length control when
  both fragments exist.\<close>

definition draftOf :: "lang \<Rightarrow> PreprocessResult \<Rightarrow> jsstr" where
  "draftOf lg diff =
     (if length (files diff) \<le> 10
      then updateWord lg @ buildSubjectFragment (hd (rankFiles (files diff)))
      else updateWord lg @ buildSubjectFragment (hd (rankFiles (files diff))) @ andWord lg @
           buildSubjectFragment (rankFiles (files diff) ! 1))"

text \<open>Eleven files named \<^verbatim>\<open>index.ts\<close> in directories of two letters, and eleven top-level
  files of which only the first has a name of more than two letters.\<close>

definition indexFilesExample :: PreprocessResult where
  "indexFilesExample =
     diffOf [changedFile (js ''ui/index.ts'') 50 0, changedFile (js ''db/index.ts'') 40 0,
             changedFile (js ''io/index.ts'') 30 0, changedFile (js ''fs/index.ts'') 9 0,
             changedFile (js ''os/index.ts'') 8 0, changedFile (js ''vm/index.ts'') 7 0,
             changedFile (js ''gc/index.ts'') 6 0, changedFile (js ''rt/index.ts'') 5 0,
             changedFile (js ''tx/index.ts'') 4 0, changedFile (js ''rx/index.ts'') 3 0,
             changedFile (js ''qa/index.ts'') 2 0]"

definition shortSecondExample :: PreprocessResult where
  "shortSecondExample =
     diffOf [changedFile (js ''login.ts'') 90 0, changedFile (js ''go'') 80 0,
             changedFile (js ''io'') 70 0, changedFile (js ''sh'') 9 0,
             changedFile (js ''cc'') 8 0, changedFile (js ''ld'') 7 0,
             changedFile (js ''as'') 6 0, changedFile (js ''ar'') 5 0,
             changedFile (js ''nm'') 4 0, changedFile (js ''od'') 3 0,
             changedFile (js ''wc'') 2 0]"

text \<open>Three files with long names, the first with a comma in its name; the same with an em
  dash between spaces in place of the comma; one file whose name has 124 characters; and
  eleven files of which the highest-ranked has a highlight with a comma.\<close>

definition commaNameExample :: PreprocessResult where
  "commaNameExample =
     diffOf [changedFile (js ''src/parse,print_pipeline_for_template_literals.ts'') 40 5,
             changedFile (js ''src/parser_error_recovery_strategies.ts'') 30 2,
             changedFile (js ''src/streaming_template_literal_reader.ts'') 20 1]"

definition dashNameExample :: PreprocessResult where
  "dashNameExample =
     diffOf [changedFile (js ''src/parse '' @ [8212] @ js '' print_pipeline_for_template_literals.ts'') 40 5,
             changedFile (js ''src/parser_error_recovery_strategies.ts'') 30 2,
             changedFile (js ''src/streaming_template_literal_reader.ts'') 20 1]"

definition longNameExample :: PreprocessResult where
  "longNameExample =
     diffOf [changedFile (js ''db/20240131_add_index_on_customer_orders_for_the_quarterly_revenue_report_and_backfill_the_missing_region_codes_of_old_rows.sql'') 12 0]"

definition commaHighlightExample :: PreprocessResult where
  "commaHighlightExample =
     diffOf [(changedFile (js ''src/login.ts'') 90 0)\<lparr>highlights := [js ''rework login(user, token) flow'']\<rparr>,
             changedFile (js ''src/session.ts'') 80 0,
             changedFile (js ''src/streaming_template_literal_reader.ts'') 70 0,
             changedFile (js ''src/a.ts'') 9 0, changedFile (js ''src/b.ts'') 8 0,
             changedFile (js ''src/c.ts'') 7 0, changedFile (js ''src/d.ts'') 6 0,
             changedFile (js ''src/e.ts'') 5 0, changedFile (js ''src/f.ts'') 4 0,
             changedFile (js ''src/g.ts'') 3 0, changedFile (js ''src/h.ts'') 2 0]"

text \<open>Two diffs whose highest-ranked file is not the first one and has a keyword, a context
  label and a highlight: one with two files and one with eleven.\<close>

definition loginExample :: PreprocessResult where
  "loginExample =
     diffOf [changedFile (js ''docs/auth.md'') 3 0,
             (changedFile (js ''src/auth/Login.ts'') 40 5)\<lparr>keywordList := [js ''validateToken''],
                contextLabels := [js ''class LoginService''], highlights := [js ''added token refresh'']\<rparr>]"

definition sessionExample :: PreprocessResult where
  "sessionExample =
     diffOf [changedFile (js ''src/a.ts'') 9 0, changedFile (js ''src/b.ts'') 8 0,
             (changedFile (js ''src/auth/Login.ts'') 90 10)\<lparr>keywordList := [js ''validateToken''],
                contextLabels := [js ''class LoginService''], highlights := [js ''added token refresh'']\<rparr>,
             changedFile (js ''src/auth/session.ts'') 80 0,
             changedFile (js ''src/c.ts'') 7 0, changedFile (js ''src/d.ts'') 6 0,
             changedFile (js ''src/e.ts'') 5 0, changedFile (js ''src/f.ts'') 4 0,
             changedFile (js ''src/g.ts'') 3 0, changedFile (js ''src/h.ts'') 2 0,
             changedFile (js ''docs/auth.md'') 1 0]"

text \<open>
  The added and removed lines of a diff block as the unified diff format defines them: the
  file headers come before the first hunk header \<^verbatim>\<open>@@\<close>; behind it a line that starts with
  a plus sign is an added line and a line that starts with a minus sign is a removed line,
  whatever follows the sign.
\<close>

definition hunkLines :: "jsstr \<Rightarrow> jsstr list" where
  "hunkLines block = dropWhile (\<lambda>line. \<not> startsWith line (js ''@@'')) (split 10 block)"

definition diffAddedLines :: "jsstr \<Rightarrow> jsstr list" where
  "diffAddedLines block = map (drop 1) (filter (\<lambda>line. startsWith line (js ''+'')) (hunkLines block))"

definition diffRemovedLines :: "jsstr \<Rightarrow> jsstr list" where
  "diffRemovedLines block = map (drop 1) (filter (\<lambda>line. startsWith line (js ''-'')) (hunkLines block))"

text \<open>A hunk of a C file in which the statement \<^verbatim>\<open>++count;\<close> moves below another line.\<close>

definition incrementMovedExample :: jsstr where
  "incrementMovedExample = js ''@@ -1,2 +1,2 @@'' @ [10] @ js ''-++count;'' @ [10] @
                           js '' total += count;'' @ [10] @ js ''+++count;''"

section \<open>Properties\<close>

text \<open>
  C10. With an empty list of required tokens \<^verbatim>\<open>matchRequiredTokens\<close> reports success for
  every subject and every required count, with no matched token, and the list of rejection
  reasons that \<^verbatim>\<open>ensureSpecificSubject\<close> builds never holds the missing-tokens reason.
\<close>

theorem matchRequiredTokens_no_tokens:
  "ok (matchRequiredTokens subject [] requiredCount) \<and>
   matchedTokens (matchRequiredTokens subject [] requiredCount) = [] \<and>
   MissingTokens \<notin> set (fallbackReasons subject [] requiredCount minSubjectLength)"
  by (simp add: matchRequiredTokens_def fallbackReasons_def)

subsection \<open>Scope\<close>

lemma split_not_Nil [simp]: "split sep s \<noteq> []"
  by (induction s) (auto split: list.splits)

lemma split_length: "Suc 0 < length (split sep s) \<longleftrightarrow> sep \<in> set s"
  by (induction s) (auto split: list.splits)

lemma split_hd: "hd (split sep s) = takeWhile (\<lambda>c. c \<noteq> sep) s"
  by (induction s) (auto split: list.splits)

text \<open>
  C6, as the claim states it, fails: the scope is taken from the first file of the diff,
  not from the highest-ranked one. In \<open>scopeExample\<close> the first file is \<^verbatim>\<open>docs/a.md\<close>
  (+1/-0) and the highest-ranked file is \<^verbatim>\<open>src/b.ts\<close> (+40/-5); the scope handed on is
  \<^verbatim>\<open>docs\<close>, the top-level directory of the highest-ranked file is \<^verbatim>\<open>src\<close>.
\<close>

theorem scopeHint_counterexample:
  "scopeHint scopeExample = js ''docs'' \<and>
   map path (rankFiles (files scopeExample)) = [js ''src/b.ts'', js ''docs/a.md''] \<and>
   deriveScope (js ''src/b.ts'') = js ''src''"
  by code_simp

text \<open>
  C6, amended: the scope is the top-level directory of the first file in the order of the
  diff (the part of its path before the first slash), \<^verbatim>\<open>core\<close> when that path has no slash,
  and \<^verbatim>\<open>repo\<close> when no file changed.
\<close>

theorem scopeHint_first_file:
  "scopeHint diff =
     (case files diff of
        [] \<Rightarrow> js ''repo''
      | f # _ \<Rightarrow> if 47 \<in> set (path f) then takeWhile (\<lambda>c. c \<noteq> 47) (path f) else js ''core'')"
  by (simp add: scopeHint_def deriveScope_def Let_def split_length split_hd split: list.splits)

subsection \<open>Type\<close>

lemma foldl_addFile:
  "foldl addFile w fs =
     \<lparr>test = test w + bucketWeight TestBucket fs, docs = docs w + bucketWeight DocsBucket fs,
      config = config w + bucketWeight ConfigBucket fs,
      code = code w + bucketWeight CodeBucket fs, total = total w + totalWeight fs\<rparr>"
  by (induction fs arbitrary: w)
     (auto simp: addFile_def bucketWeight_def totalWeight_def Let_def split: bucket.splits)

lemma typeWeight_pos: "0 < typeWeight f"
  by (simp add: typeWeight_def)

lemma totalWeight_pos: "fs \<noteq> [] \<Longrightarrow> 0 < totalWeight fs"
  by (cases fs) (simp_all add: totalWeight_def typeWeight_pos)

lemma bucketWeight_all:
  "(\<forall>f \<in> set fs. bucketOf (path f) = b) \<Longrightarrow> bucketWeight b fs = totalWeight fs"
  by (induction fs) (simp_all add: bucketWeight_def totalWeight_def)

lemma bucketWeight_none:
  "(\<forall>f \<in> set fs. bucketOf (path f) \<noteq> b) \<Longrightarrow> bucketWeight b fs = 0"
  by (induction fs) (simp_all add: bucketWeight_def)

lemma bucketWeight_le: "bucketWeight b fs \<le> totalWeight fs"
  by (induction fs) (simp_all add: bucketWeight_def totalWeight_def)

lemma moreThanHalf_bucket:
  "moreThanHalf (bucketWeight b fs) (totalWeight fs) \<longleftrightarrow>
   2 * bucketWeight b fs > totalWeight fs"
  using bucketWeight_le [of b fs] by (auto simp: moreThanHalf_def)

lemma deriveType_formula:
  "deriveType diff =
     (let fs = files diff; tot = totalWeight fs in
      if 2 * bucketWeight TestBucket fs > tot then js ''test''
      else if 2 * bucketWeight DocsBucket fs > tot then js ''docs''
      else if 2 * bucketWeight ConfigBucket fs > tot then js ''chore''
      else if totalDeletions diff > totalAdditions diff then js ''refactor''
      else js ''feat'')"
  by (simp add: deriveType_def foldl_addFile moreThanHalf_bucket Let_def)

text \<open>
  C7, as the claim states it, fails in its last part: a diff that touches only \<^verbatim>\<open>.md\<close>
  files need not yield \<^verbatim>\<open>docs\<close>. The test bucket is tried first and takes every path
  that contains \<^verbatim>\<open>test\<close> or \<^verbatim>\<open>spec\<close>, so the single file \<^verbatim>\<open>spec.md\<close> (+20/-0) yields
  \<^verbatim>\<open>test\<close>.
\<close>

theorem deriveType_md_counterexample:
  "files specMdExample = [changedFile (js ''spec.md'') 20 0] \<and>
   endsWith (toLowerCase (js ''spec.md'')) (js ''.md'') \<and>
   deriveType specMdExample = js ''test''"
  by code_simp

text \<open>
  C7, amended: \<^verbatim>\<open>deriveType\<close> weighs each file by additions plus deletions, by its weight
  when that sum is zero, and by 1 when both are zero; it sums the weights of the files that
  the path rules put into the test, docs and config bucket, and returns \<^verbatim>\<open>test\<close>, \<^verbatim>\<open>docs\<close>
  or \<^verbatim>\<open>chore\<close> (in this order) when twice the sum of a bucket exceeds the sum over all
  files; otherwise \<^verbatim>\<open>refactor\<close> when the total deletions exceed the total additions and
  \<^verbatim>\<open>feat\<close> otherwise. A diff with at least one file, all of whose lower-cased paths end in
  \<^verbatim>\<open>.md\<close> and contain neither \<^verbatim>\<open>test\<close> nor \<^verbatim>\<open>spec\<close>, yields \<^verbatim>\<open>docs\<close>.
\<close>

theorem deriveType_shares:
  "deriveType diff =
     (let w = (\<lambda>f. if additions f + deletions f \<noteq> 0 then additions f + deletions f
                   else if weight f \<noteq> 0 then weight f else 1);
          share = (\<lambda>b. sum_list (map w (filter (\<lambda>f. bucketOf (path f) = b) (files diff))));
          whole = sum_list (map w (files diff))
      in if whole < 2 * share TestBucket then js ''test''
         else if whole < 2 * share DocsBucket then js ''docs''
         else if whole < 2 * share ConfigBucket then js ''chore''
         else if totalAdditions diff < totalDeletions diff then js ''refactor''
         else js ''feat'') \<and>
   (files diff \<noteq> [] \<and>
    (\<forall>f \<in> set (files diff).
        endsWith (toLowerCase (path f)) (js ''.md'') \<and>
        \<not> includesStr (toLowerCase (path f)) (js ''test'') \<and>
        \<not> includesStr (toLowerCase (path f)) (js ''spec''))
    \<longrightarrow> deriveType diff = js ''docs'')"
proof (intro conjI impI)
  have w: "typeWeight = (\<lambda>f. if additions f + deletions f \<noteq> 0 then additions f + deletions f
                   else if weight f \<noteq> 0 then weight f else 1)"
    by (rule ext) (simp add: typeWeight_def)
  show "deriveType diff =
     (let w = (\<lambda>f. if additions f + deletions f \<noteq> 0 then additions f + deletions f
                   else if weight f \<noteq> 0 then weight f else 1);
          share = (\<lambda>b. sum_list (map w (filter (\<lambda>f. bucketOf (path f) = b) (files diff))));
          whole = sum_list (map w (files diff))
      in if whole < 2 * share TestBucket then js ''test''
         else if whole < 2 * share DocsBucket then js ''docs''
         else if whole < 2 * share ConfigBucket then js ''chore''
         else if totalAdditions diff < totalDeletions diff then js ''refactor''
         else js ''feat'')"
    unfolding deriveType_formula Let_def bucketWeight_def totalWeight_def w by (rule refl)
next
  assume h: "files diff \<noteq> [] \<and>
    (\<forall>f \<in> set (files diff).
        endsWith (toLowerCase (path f)) (js ''.md'') \<and>
        \<not> includesStr (toLowerCase (path f)) (js ''test'') \<and>
        \<not> includesStr (toLowerCase (path f)) (js ''spec''))"
  then have b: "\<forall>f \<in> set (files diff). bucketOf (path f) = DocsBucket"
    by (simp add: bucketOf_def Let_def)
  then have "bucketWeight DocsBucket (files diff) = totalWeight (files diff)"
    by (rule bucketWeight_all)
  moreover from b have "bucketWeight TestBucket (files diff) = 0"
    by (intro bucketWeight_none) simp
  moreover from h have "0 < totalWeight (files diff)"
    by (simp add: totalWeight_pos)
  ultimately show "deriveType diff = js ''docs''"
    by (simp add: deriveType_formula Let_def)
qed

text \<open>
  The amended claim at work. In \<open>guidesExample\<close> both paths end in \<^verbatim>\<open>.md\<close> once lower-cased.
  In \<open>linesExample\<close> the documentation is two of three files and two of 102 changed lines:
  the result is \<^verbatim>\<open>feat\<close>. In \<open>weightExample\<close> the file without changed lines counts with
  its weight 5 against three lines: \<^verbatim>\<open>docs\<close>. In \<open>weightlessExample\<close> every file counts 1
  and two of three are configuration: \<^verbatim>\<open>chore\<close>. In \<open>shrinkExample\<close> no bucket has the
  majority and twelve deletions exceed one addition: \<^verbatim>\<open>refactor\<close>.
\<close>

theorem deriveType_shares_witness:
  "map path (files guidesExample) = [js ''guide.md'', js ''notes/Changes.MD''] \<and>
   toLowerCase (js ''notes/Changes.MD'') = js ''notes/changes.md'' \<and>
   deriveType guidesExample = js ''docs'' \<and>
   deriveType linesExample = js ''feat'' \<and>
   deriveType weightExample = js ''docs'' \<and>
   deriveType weightlessExample = js ''chore'' \<and>
   deriveType shrinkExample = js ''refactor''"
proof -
  have f: "map path (files guidesExample) = [js ''guide.md'', js ''notes/Changes.MD'']"
    by code_simp
  have l: "toLowerCase (js ''notes/Changes.MD'') = js ''notes/changes.md''"
    by code_simp
  have ne: "files guidesExample \<noteq> []"
    by code_simp
  have md: "\<forall>f \<in> set (files guidesExample).
        endsWith (toLowerCase (path f)) (js ''.md'') \<and>
        \<not> includesStr (toLowerCase (path f)) (js ''test'') \<and>
        \<not> includesStr (toLowerCase (path f)) (js ''spec'')"
    by code_simp
  from deriveType_shares [of guidesExample, THEN conjunct2] ne md
  have g: "deriveType guidesExample = js ''docs''" by blast
  have a: "deriveType linesExample = js ''feat''"
    by (subst deriveType_shares [of linesExample, THEN conjunct1]) code_simp
  have b: "deriveType weightExample = js ''docs''"
    by (subst deriveType_shares [of weightExample, THEN conjunct1]) code_simp
  have c: "deriveType weightlessExample = js ''chore''"
    by (subst deriveType_shares [of weightlessExample, THEN conjunct1]) code_simp
  have d: "deriveType shrinkExample = js ''refactor''"
    by (subst deriveType_shares [of shrinkExample, THEN conjunct1]) code_simp
  from f l g a b c d show ?thesis by simp
qed

subsection \<open>Line reconciler\<close>

lemma map_of_mapSet: "map_of (mapSet m k v) = (map_of m)(k \<mapsto> v)"
  by (induction m) auto

lemma keys_mapSet: "fst ` set (mapSet m k v) = insert k (fst ` set m)"
  by (induction m k v rule: mapSet.induct) (simp_all add: insert_commute)

lemma distinct_mapSet: "distinct (map fst m) \<Longrightarrow> distinct (map fst (mapSet m k v))"
proof (induction m)
  case Nil
  then show ?case by simp
next
  case (Cons p m)
  obtain k' v' where p: "p = (k', v')" by (cases p)
  show ?case
  proof (cases "k' = k")
    case True
    with Cons.prems p show ?thesis by simp
  next
    case False
    from Cons.prems p have "k' \<notin> fst ` set m" and "distinct (map fst m)" by simp_all
    with False Cons.IH p show ?thesis by (simp add: keys_mapSet)
  qed
qed

lemma countOf_Nil [simp]: "countOf [] k = 0"
  by (simp add: countOf_def)

lemma mapGet_countOf: "(case mapGet m k of None \<Rightarrow> 0 | Some n \<Rightarrow> n) = countOf m k"
  by (simp add: countOf_def mapGet_def)

lemma countOf_mapSet: "countOf (mapSet m k v) k' = (if k' = k then v else countOf m k')"
  by (simp add: countOf_def map_of_mapSet)

lemma distinct_countRemoved:
  "distinct (map fst m) \<Longrightarrow> distinct (map fst (countRemoved m ls))"
  by (induction ls arbitrary: m) (simp_all add: Let_def distinct_mapSet)

lemma countOf_countRemoved:
  "countOf (countRemoved m ls) k = countOf m k + count (mset (map normalizeLine ls)) k"
proof (induction ls arbitrary: m)
  case Nil
  then show ?case by simp
next
  case (Cons l ls)
  show ?case
    by (simp add: Let_def Cons.IH countOf_mapSet mapGet_countOf)
qed

lemma cancelAdded_all_cancelled:
  "(\<And>k. count (mset (map normalizeLine as)) k \<le> countOf m k) \<Longrightarrow>
   fst (cancelAdded m as cleaned) = cleaned \<and>
   (\<forall>k. countOf (snd (cancelAdded m as cleaned)) k =
        countOf m k - count (mset (map normalizeLine as)) k)"
proof (induction as arbitrary: m)
  case Nil
  then show ?case by simp
next
  case (Cons a as)
  let ?key = "normalizeLine a"
  from Cons.prems [of ?key] have pos: "0 < countOf m ?key" by simp
  then obtain n where n: "map_of m ?key = Some n" "0 < n"
    by (auto simp: countOf_def split: option.splits)
  let ?m' = "mapSet m ?key (n - 1)"
  have step: "cancelAdded m (a # as) cleaned = cancelAdded ?m' as cleaned"
    using n by (simp add: Let_def mapGet_def)
  have cn: "countOf m ?key = n"
    using n by (simp add: countOf_def)
  have le: "count (mset (map normalizeLine as)) k \<le> countOf ?m' k" for k
    using Cons.prems [of k] cn by (auto simp: countOf_mapSet)
  from Cons.IH [OF le]
  have ih: "fst (cancelAdded ?m' as cleaned) = cleaned"
    "\<And>k. countOf (snd (cancelAdded ?m' as cleaned)) k =
        countOf ?m' k - count (mset (map normalizeLine as)) k"
    by simp_all
  have down: "countOf ?m' k - count (mset (map normalizeLine as)) k =
        countOf m k - count (mset (map normalizeLine (a # as))) k" for k
    using cn by (auto simp: countOf_mapSet)
  show ?case
    unfolding step
  proof (intro conjI allI)
    show "fst (cancelAdded ?m' as cleaned) = cleaned" by (rule ih(1))
  next
    fix k
    show "countOf (snd (cancelAdded ?m' as cleaned)) k =
          countOf m k - count (mset (map normalizeLine (a # as))) k"
      by (simp only: ih(2) down)
  qed
qed

lemma distinct_cancelAdded:
  "distinct (map fst m) \<Longrightarrow> distinct (map fst (snd (cancelAdded m as cleaned)))"
  by (induction as arbitrary: m cleaned)
     (auto simp: Let_def distinct_mapSet split: option.splits)

lemma leftoverRemoved_empty:
  assumes "distinct (map fst m)" and "\<And>k. countOf m k = 0"
  shows "leftoverRemoved m = []"
proof -
  have "n = 0" if "(k, n) \<in> set m" for k n
  proof -
    from assms(1) that have "map_of m k = Some n" by (rule map_of_is_SomeI)
    with assms(2) [of k] show ?thesis by (simp add: countOf_def)
  qed
  then show ?thesis
    by (auto simp: leftoverRemoved_def filter_empty_conv)
qed

lemma foldl_scanLine_cleaned:
  "cleanedLines (foldl scanLine st ls) = cleanedLines st"
  by (induction ls arbitrary: st) (auto simp: scanLine_def split: option.splits)

text \<open>Whatever the function has collected as added and removed lines is cancelled
  completely when the two multisets of normalized lines agree.\<close>

lemma parseDiffLines_cancels_collected:
  assumes "mset (map normalizeLine (addedLines (parseDiffLines block))) =
           mset (map normalizeLine (removedLines (parseDiffLines block)))"
  shows "cleanedLines (parseDiffLines block) = []"
proof -
  define st where "st = foldl scanLine
                 \<lparr>lineAdditions = 0, lineDeletions = 0, cleanedLines = [], hunkStarts = [],
                  addedLines = [], removedLines = []\<rparr> (split 10 block)"
  define m where "m = countRemoved [] (removedLines st)"
  have res: "parseDiffLines block =
     st\<lparr>cleanedLines := fst (cancelAdded m (addedLines st) []) @
                          leftoverRemoved (snd (cancelAdded m (addedLines st) []))\<rparr>"
    by (simp add: parseDiffLines_def Let_def st_def m_def split: prod.splits)
  from assms have eq: "mset (map normalizeLine (addedLines st)) =
                       mset (map normalizeLine (removedLines st))"
    by (simp add: res)
  have cm: "countOf m k = count (mset (map normalizeLine (removedLines st))) k" for k
    by (simp add: m_def countOf_countRemoved)
  have dm: "distinct (map fst m)"
    unfolding m_def by (rule distinct_countRemoved) simp
  have le: "count (mset (map normalizeLine (addedLines st))) k \<le> countOf m k" for k
    unfolding cm eq by simp
  from cancelAdded_all_cancelled [OF le, of "[]"]
  have c1: "fst (cancelAdded m (addedLines st) []) = []"
    and c2: "\<And>k. countOf (snd (cancelAdded m (addedLines st) [])) k = 0"
    unfolding cm eq by simp_all
  have "leftoverRemoved (snd (cancelAdded m (addedLines st) [])) = []"
    by (rule leftoverRemoved_empty [OF distinct_cancelAdded [OF dm] c2])
  with c1 show ?thesis by (simp add: res)
qed

lemma parseDiffLines_cancels_collected_example:
  "addedLines (parseDiffLines reorderExample) = [js ''bar();'', js ''  foo();''] \<and>
   removedLines (parseDiffLines reorderExample) = [js ''foo();'', js ''bar();''] \<and>
   cleanedLines (parseDiffLines reorderExample) = []"
proof -
  have a: "addedLines (parseDiffLines reorderExample) = [js ''bar();'', js ''  foo();'']"
    by code_simp
  have r: "removedLines (parseDiffLines reorderExample) = [js ''foo();'', js ''bar();'']"
    by code_simp
  have n: "map normalizeLine [js ''bar();'', js ''  foo();''] = [js ''bar();'', js ''foo();'']"
    by code_simp
  have n2: "map normalizeLine [js ''foo();'', js ''bar();''] = [js ''foo();'', js ''bar();'']"
    by code_simp
  have "mset (map normalizeLine (addedLines (parseDiffLines reorderExample))) =
        mset (map normalizeLine (removedLines (parseDiffLines reorderExample)))"
    unfolding a r n n2 by (simp add: add_mset_commute)
  from parseDiffLines_cancels_collected [OF this] a r show ?thesis by simp
qed

text \<open>
  C9. The claim says that a block whose added lines are, as multisets of normalized lines,
  its removed lines leaves no net line. The first loop of \<^verbatim>\<open>parseDiffLines\<close> skips every
  line that starts with \<^verbatim>\<open>+++\<close> or \<^verbatim>\<open>---\<close>, meant for the two file headers, also inside a
  hunk. In \<open>incrementMovedExample\<close> the line \<^verbatim>\<open>++count;\<close> is removed and added again; the
  added line reads \<^verbatim>\<open>+++count;\<close> in the diff and is skipped, so nothing cancels the removed
  line and it stays in the net lines.
\<close>

theorem parseDiffLines_moved_increment:
  "diffAddedLines incrementMovedExample = [js ''++count;''] \<and>
   diffRemovedLines incrementMovedExample = [js ''++count;''] \<and>
   addedLines (parseDiffLines incrementMovedExample) = [] \<and>
   removedLines (parseDiffLines incrementMovedExample) = [js ''++count;''] \<and>
   cleanedLines (parseDiffLines incrementMovedExample) = [js ''-++count;'']"
  by code_simp

subsection \<open>Lockfile summarizer\<close>

lemma lazyUntilAt_nonempty: "lazyUntilAt taken s = Some p \<Longrightarrow> taken \<noteq> [] \<Longrightarrow> p \<noteq> []"
proof (induction s arbitrary: taken)
  case Nil
  then show ?case by simp
next
  case (Cons c cs)
  show ?case
  proof (cases "c = 64")
    case True
    with Cons.prems show ?thesis by auto
  next
    case False
    with Cons.prems have "lazyUntilAt (c # taken) cs = Some p"
      by (simp split: if_splits)
    then show ?thesis by (rule Cons.IH) simp
  qed
qed

lemma packageAfterSlash_nonempty: "packageAfterSlash s = Some p \<Longrightarrow> p \<noteq> []"
  unfolding packageAfterSlash_def
  by (cases s) (simp_all split: if_splits add: lazyUntilAt_nonempty)

lemma packageMatch_nonempty: "packageMatch s = Some p \<Longrightarrow> p \<noteq> []"
proof (induction s)
  case Nil
  then show ?case by simp
next
  case (Cons c cs)
  show ?case
  proof (cases "c = 47")
    case True
    show ?thesis
    proof (cases "packageAfterSlash cs")
      case None
      with True Cons show ?thesis by simp
    next
      case (Some q)
      with True Cons.prems have "q = p" by simp
      with Some show ?thesis by (simp add: packageAfterSlash_nonempty)
    qed
  next
    case False
    with Cons show ?thesis by simp
  qed
qed

lemma distinct_setAdd: "distinct xs \<Longrightarrow> distinct (setAdd xs x)"
  by (simp add: setAdd_def)

lemma distinct_foldl_setAdd: "distinct xs \<Longrightarrow> distinct (foldl setAdd xs ys)"
  by (induction ys arbitrary: xs) (simp_all add: distinct_setAdd)


lemma showNat_digit: "showNat n \<noteq> [] \<and> hd (showNat n) < 58"
proof (induction n rule: showNat.induct)
  case (1 n)
  show ?case
  proof (cases "n < 10")
    case True
    then have "showNat n = [48 + n]" by (subst showNat.simps) simp
    with True show ?thesis by simp
  next
    case False
    then have "showNat n = showNat (n div 10) @ [48 + n mod 10]" by (subst showNat.simps) simp
    with 1 False show ?thesis by simp
  qed
qed

lemma plus_minus_exclusive: "\<not> (startsWith l (js ''+'') \<and> startsWith l (js ''-''))"
  by (cases l) (simp_all add: startsWith_def js_def)

lemma scanLockLine_fields:
  "addVersions (scanLockLine st l) =
     addVersions st + (if startsWith l (js ''+'') \<and> hasVersionField (drop 1 l) then 1 else 0)"
  "removeVersions (scanLockLine st l) =
     removeVersions st + (if startsWith l (js ''-'') \<and> hasVersionField (drop 1 l) then 1 else 0)"
  "packages (scanLockLine st l) =
     (case (if isChangeLine l then packageMatch (drop 1 l) else None) of
        None \<Rightarrow> packages st | Some p \<Rightarrow> setAdd (packages st) p)"
proof -
  note ex = plus_minus_exclusive [of l]
  show "addVersions (scanLockLine st l) =
     addVersions st + (if startsWith l (js ''+'') \<and> hasVersionField (drop 1 l) then 1 else 0)"
    using ex by (simp add: scanLockLine_def Let_def split: option.splits)
  show "removeVersions (scanLockLine st l) =
     removeVersions st + (if startsWith l (js ''-'') \<and> hasVersionField (drop 1 l) then 1 else 0)"
    using ex by (simp add: scanLockLine_def Let_def split: option.splits)
  show "packages (scanLockLine st l) =
     (case (if isChangeLine l then packageMatch (drop 1 l) else None) of
        None \<Rightarrow> packages st | Some p \<Rightarrow> setAdd (packages st) p)"
    by (simp add: scanLockLine_def isChangeLine_def Let_def packageMatch_nonempty
             split: option.splits)
qed

lemma foldl_scanLockLine:
  "addVersions (foldl scanLockLine st ls) = addVersions st +
     length (filter (\<lambda>line. startsWith line (js ''+'') \<and> hasVersionField (drop 1 line)) ls)"
  "removeVersions (foldl scanLockLine st ls) = removeVersions st +
     length (filter (\<lambda>line. startsWith line (js ''-'') \<and> hasVersionField (drop 1 line)) ls)"
  "packages (foldl scanLockLine st ls) =
     foldl setAdd (packages st)
       (List.map_filter
          (\<lambda>line. if isChangeLine line then packageMatch (drop 1 line) else None) ls)"
proof (induction ls arbitrary: st)
  case Nil
  case 1 show ?case by simp
  case 2 show ?case by simp
  case 3 show ?case by (simp add: List.map_filter_simps)
next
  case (Cons l ls)
  case 1 show ?case by (simp add: Cons.IH(1) scanLockLine_fields(1))
  case 2 show ?case by (simp add: Cons.IH(2) scanLockLine_fields(2))
  case 3 show ?case
    by (simp add: Cons.IH(3) scanLockLine_fields(3) List.map_filter_simps split: option.splits)
qed


lemma summarizeLockfile_formula:
  "summarizeLockfile block filePath =
     (let n = max (versionAdditions block)
                (max (versionRemovals block) (length (packageNames block))) in
      [basename filePath @
        (if n = 0 then js '': lockfile updated''
         else js '': '' @ showNat n @ js '' version entries updated'' @
              (if packageNames block = [] then []
               else js '' ('' @ join (js '', '') (take 3 (packageNames block)) @
                    (if length (packageNames block) > 3 then js '', ...'' else []) @
                    js '')''))])"
  unfolding summarizeLockfile_def Let_def foldl_scanLockLine versionAdditions_def
    versionRemovals_def packageNames_def
  by simp

lemma count_line_differs:
  "js '': '' @ showNat n @ rest \<noteq> js '': lockfile updated''"
proof
  assume "js '': '' @ showNat n @ rest = js '': lockfile updated''"
  then have eq: "showNat n @ rest = js ''lockfile updated''"
    by (simp add: js_def)
  obtain d ds where d: "showNat n = d # ds" "d < 58"
    using showNat_digit [of n] by (cases "showNat n") auto
  from eq d show False by (simp add: js_def)
qed

text \<open>
  C8, amended: for every lockfile diff block the summarizer emits exactly one line. It is
  \<^verbatim>\<open><basename>: lockfile updated\<close> if and only if the added and removed lines of the
  block hold no version field and no package name; otherwise it is
  \<^verbatim>\<open><basename>: N version entries updated\<close> with \<open>N\<close> the maximum of the version-field
  additions, the version-field removals and the number of distinct package names,
  followed, when a package name was found, by the first three names in parentheses (and
  \<^verbatim>\<open>, ...\<close> when there are more).
\<close>

theorem summarizeLockfile_one_line:
  "summarizeLockfile block filePath =
     (let n = max (versionAdditions block)
                (max (versionRemovals block) (length (packageNames block))) in
      [basename filePath @
        (if n = 0 then js '': lockfile updated''
         else js '': '' @ showNat n @ js '' version entries updated'' @
              (if packageNames block = [] then []
               else js '' ('' @ join (js '', '') (take 3 (packageNames block)) @
                    (if length (packageNames block) > 3 then js '', ...'' else []) @
                    js '')''))]) \<and>
   distinct (packageNames block) \<and>
   (summarizeLockfile block filePath = [basename filePath @ js '': lockfile updated''] \<longleftrightarrow>
      versionAdditions block = 0 \<and> versionRemovals block = 0 \<and> packageNames block = [])"
proof (intro conjI)
  show "distinct (packageNames block)"
    by (simp add: packageNames_def distinct_foldl_setAdd)
next
  define n where "n = max (versionAdditions block)
                (max (versionRemovals block) (length (packageNames block)))"
  have zero: "n = 0 \<longleftrightarrow>
      versionAdditions block = 0 \<and> versionRemovals block = 0 \<and> packageNames block = []"
    unfolding n_def by auto
  have res: "summarizeLockfile block filePath =
      [basename filePath @
        (if n = 0 then js '': lockfile updated''
         else js '': '' @ showNat n @ js '' version entries updated'' @
              (if packageNames block = [] then []
               else js '' ('' @ join (js '', '') (take 3 (packageNames block)) @
                    (if length (packageNames block) > 3 then js '', ...'' else []) @
                    js '')''))]"
    unfolding n_def by (simp only: summarizeLockfile_formula Let_def)
  have "summarizeLockfile block filePath = [basename filePath @ js '': lockfile updated''] \<longleftrightarrow>
        n = 0"
    unfolding res using count_line_differs [of n] by (cases "n = 0") simp_all
  then show "summarizeLockfile block filePath = [basename filePath @ js '': lockfile updated''] \<longleftrightarrow>
      versionAdditions block = 0 \<and> versionRemovals block = 0 \<and> packageNames block = []"
    by (simp only: zero)
qed (rule summarizeLockfile_formula)

text \<open>
  C8, as the claim states it, fails: in \<open>lockExample\<close> no added or removed line holds a
  version field, yet the line is not \<^verbatim>\<open>lockfile updated\<close>, because a package name was
  found and the count is the maximum over the three numbers.
\<close>

theorem summarizeLockfile_counterexample:
  "versionAdditions lockExample = 0 \<and> versionRemovals lockExample = 0 \<and>
   summarizeLockfile lockExample (js ''pnpm-lock.yaml'') =
     [js ''pnpm-lock.yaml: 1 version entries updated (lodash)'']"
  by code_simp

subsection \<open>Cancellation\<close>

lemma consume_time: "snd (consume r t ds c) \<ge> t"
proof (induction ds arbitrary: t c)
  case Nil
  then show ?case by simp
next
  case (Cons d ds)
  from Cons.IH [of "Suc t" "c @ d"] show ?case by (simp add: Suc_leD)
qed

lemma consume_aborted: "consume r t ds c = (Inl e, t') \<Longrightarrow> aborted r t' \<and> e = InferenceAborted"
  by (induction ds arbitrary: t c) (auto split: if_splits)

lemma aborted_mono: "aborted r t \<Longrightarrow> t \<le> t' \<Longrightarrow> aborted r t'"
  by (auto simp: aborted_def split: option.splits)

text \<open>The function raises only in a cancelled run, and it calls the engine at most twice:
  once streaming and at most once more without streaming, with the same prompt.\<close>

lemma generateCommitMessage_raises_only_cancelled:
  assumes "outcome (generateCommitMessage r prompt fallback finalize) = Inl e"
  shows "aborted r (settledAt (generateCommitMessage r prompt fallback finalize))"
proof (cases "aborted r 0")
  case True
  then show ?thesis by (simp add: generateCommitMessage_def)
next
  case False
  obtain streamed t where c: "consume r 1 (streamChunks r) [] = (streamed, t)"
    by (cases "consume r 1 (streamChunks r) []")
  show ?thesis
  proof (cases streamed)
    case (Inl e')
    with c have "aborted r t" by (auto dest: consume_aborted)
    with False c Inl show ?thesis by (simp add: generateCommitMessage_def)
  next
    case (Inr content)
    with assms False c show ?thesis
      by (auto simp: generateCommitMessage_def finish_def split: if_splits option.splits)
  qed
qed

lemma generateCommitMessage_calls:
  "engineCalls (generateCommitMessage r prompt fallback finalize) \<in>
     {[], [StreamingCall prompt], [StreamingCall prompt, PlainCall prompt]}"
  by (auto simp: generateCommitMessage_def finish_def split: prod.splits sum.splits option.splits)

text \<open>
  C3. The claim says that a cancelled run always surfaces the cancellation to the caller and
  is never turned into a synthesized message. The outer \<^verbatim>\<open>catch\<close> rethrows when the signal
  is aborted, the inner \<^verbatim>\<open>catch\<close> around the retry does not look at the signal: in the run
  \<open>cancelDuringRetry\<close> the signal is aborted when the function settles, and the function
  returns the fallback message instead of raising.
\<close>

theorem generateCommitMessage_cancel_during_retry:
  "outcome (generateCommitMessage cancelDuringRetry prompt fallback finalize) = Inr fallback \<and>
   aborted cancelDuringRetry
     (settledAt (generateCommitMessage cancelDuringRetry prompt fallback finalize))"
  by (simp add: generateCommitMessage_def cancelDuringRetry_def aborted_def)

subsection \<open>Shortness as a soft condition\<close>

text \<open>
  C5. The variant with a body never sends such a subject to synthesis
  (\<open>ensureSpecificSubject2\<close>, lemma \<open>ensureSpecificSubject2_keeps_short\<close> below); it hands
  it to length control. The claim fails in the single-line variant, where
  every reason, shortness included, sends the subject to synthesis. For the change
  \<open>bigChangeExample\<close> the minimum is 300; the model's subject
  \<^verbatim>\<open>refine parser.rs token handling\<close> names a required token, is not generic and holds no
  diff statistics, so its only failure is shortness. The single-line variant returns a
  synthesized subject that starts with \<^verbatim>\<open>update parser.rs\<close>; the other variant keeps the
  model's subject and expands it.
\<close>

theorem ensureSpecificSubject1_discards_short_subject:
  "minSubjectLengthOf bigChangeExample = 300 \<and>
   fallbackReasons (js ''refine parser.rs token handling'') (requiredTokensOf bigChangeExample)
     (requiredTokenCountOf bigChangeExample) 300 = [TooShort] \<and>
   ensureSpecificSubject1 En Imperative (js ''refine parser.rs token handling'')
     (requiredTokensOf bigChangeExample) (requiredTokenCountOf bigChangeExample) 300 bigChangeExample =
     js ''update parser.rs'' @ [32, 8212, 32] @ js ''details: parser.rs parser.rs, src'' \<and>
   ensureSpecificSubject2 En Imperative (js ''refine parser.rs token handling'')
     (requiredTokensOf bigChangeExample) (requiredTokenCountOf bigChangeExample) 80 120 bigChangeExample =
     js ''refine parser.rs token handling'' @ [32, 8212, 32] @ js ''parser.rs parser.rs, src''"
  by code_simp

text \<open>In the variant with a body a subject whose only failure is shortness is not replaced
  by a synthesized one: it goes to length control.\<close>

lemma ensureSpecificSubject2_keeps_short:
  assumes "set (fallbackReasons (trim subject) requiredTokens requiredTokenCount minLen) \<subseteq> {TooShort}"
  shows "ensureSpecificSubject2 lg style subject requiredTokens requiredTokenCount minLen maxLen diff =
         applySubjectStyle lg style
           (if minLen > 0 \<or> maxLen > 0
            then ensureSubjectLength2 lg (trim subject) diff requiredTokens minLen maxLen
            else trim subject)"
proof -
  from assms have "\<not> list_ex (\<lambda>reason. reason \<noteq> TooShort)
      (fallbackReasons (trim subject) requiredTokens requiredTokenCount minLen)"
    by (auto simp: list_ex_iff)
  then show ?thesis
    by (simp add: ensureSpecificSubject2_def Let_def)
qed

lemma ensureSpecificSubject1_rejects_short:
  assumes "TooShort \<in> set (fallbackReasons (trim subject) requiredTokens requiredTokenCount minLen)"
  shows "ensureSpecificSubject1 lg style subject requiredTokens requiredTokenCount minLen diff =
         buildSpecificSubject1 lg style diff requiredTokens requiredTokenCount minLen"
proof -
  from assms have "fallbackReasons (trim subject) requiredTokens requiredTokenCount minLen \<noteq> []"
    by auto
  then show ?thesis
    by (simp add: ensureSpecificSubject1_def Let_def)
qed

text \<open>In the single-line variant the expansion of the model's subject is never reached:
  when no reason was found the subject already has the minimum length.\<close>

lemma ensureSpecificSubject1_expansion_unreachable:
  assumes "fallbackReasons cleaned requiredTokens requiredTokenCount minLen = []"
  shows "ensureSubjectLength1 lg cleaned diff requiredTokens minLen = cleaned"
proof -
  from assms have "\<not> (minLen > 0 \<and> length cleaned < minLen)"
    by (auto simp: fallbackReasons_def split: if_splits)
  then show ?thesis
    by (auto simp: ensureSubjectLength1_def)
qed

subsection \<open>Length control\<close>


lemma length_trim_le: "length (trim s) \<le> length s"
proof -
  have "length (trimStart (trimEnd s)) \<le> length (trimEnd s)"
    by (simp add: trimStart_def length_dropWhile_le)
  also have "\<dots> \<le> length s"
    using length_dropWhile_le [of isSpace "rev s"] by (simp add: trimEnd_def)
  finally show ?thesis by (simp add: trim_def)
qed






lemma length_insertRanked [simp]: "length (insertRanked f gs) = Suc (length gs)"
  by (induction gs) simp_all

lemma length_rankFiles [simp]: "length (rankFiles fs) = length fs"
  by (induction fs) (simp_all add: rankFiles_def)







subsection \<open>Normal forms\<close>

lemma trimEnd_Cons:
  "trimEnd (c # s) = (if trimEnd s = [] \<and> isSpace c then [] else c # trimEnd s)"
proof -
  have "dropWhile isSpace (rev s @ [c]) =
        (if \<forall>x \<in> set (rev s). isSpace x then dropWhile isSpace [c] else dropWhile isSpace (rev s) @ [c])"
    by (simp add: dropWhile_append)
  moreover have "(\<forall>x \<in> set (rev s). isSpace x) \<longleftrightarrow> dropWhile isSpace (rev s) = []"
    by (simp add: dropWhile_eq_Nil_conv)
  ultimately show ?thesis
    by (auto simp: trimEnd_def)
qed

lemma trimEnd_Nil [simp]: "trimEnd [] = []"
  by (simp add: trimEnd_def)

lemma gapWords_append:
  "gapWords keep s p (x @ y) =
     gapWords keep s p x @ gapWords keep (fst (gapState keep (s, p) x)) (snd (gapState keep (s, p) x)) y"
  by (induction x arbitrary: s p) simp_all

lemma gapWords_unstarted: "gapWords keep False p t = gapWords keep False q t"
  by (induction t arbitrary: p q) simp_all

lemma gapWords_suffix: "suffix (gapWords keep False q t) (gapWords keep s p t)"
proof (induction t arbitrary: s p q)
  case Nil
  then show ?case by simp
next
  case (Cons c cs)
  show ?case
  proof (cases "keep c")
    case True
    then show ?thesis by (auto simp: suffix_def)
  next
    case False
    with Cons [of True s True] show ?thesis by simp
  qed
qed

lemma gapWords_idem:
  "\<not> keep 32 \<Longrightarrow> gapWords keep s False (gapWords keep s p t) = gapWords keep s p t"
proof (induction t arbitrary: s p)
  case Nil
  then show ?case by simp
next
  case (Cons c cs)
  show ?case
  proof (cases "keep c")
    case True
    with Cons show ?thesis by (cases "s \<and> p") auto
  next
    case False
    with Cons show ?thesis by simp
  qed
qed

lemma gapWords_last: "gapWords keep s p t \<noteq> [] \<Longrightarrow> keep (last (gapWords keep s p t))"
proof (induction t arbitrary: s p)
  case Nil
  then show ?case by simp
next
  case (Cons c cs)
  show ?case
  proof (cases "keep c")
    case True
    with Cons.IH [of True False] show ?thesis
      by (cases "gapWords keep True False cs = []") (auto simp: last_append)
  next
    case False
    with Cons show ?thesis by simp
  qed
qed

lemma gapWords_set: "set (gapWords keep s p t) \<subseteq> insert 32 (set t)"
  by (induction t arbitrary: s p) auto

lemma gapWords_hd: "gapWords keep False p t \<noteq> [] \<Longrightarrow> keep (hd (gapWords keep False p t))"
  by (induction t arbitrary: p) (auto split: if_splits)

text \<open>The replacement of the runs outside a class, then trimming, is \<open>gapWords\<close>.\<close>

lemma trimEnd_replaceRuns:
  assumes k: "\<And>c. keep c \<Longrightarrow> \<not> isSpace c"
  shows "trimEnd (replaceRunsFrom True (\<lambda>c. \<not> keep c) [32] t) = gapWords keep False p t \<and>
         trimEnd (replaceRunsFrom False (\<lambda>c. \<not> keep c) [32] t) = gapWords keep True False t"
proof (induction t arbitrary: p)
  case Nil
  then show ?case by simp
next
  case (Cons c cs)
  have sp: "isSpace 32" by (simp add: isSpace_def)
  have pend: "gapWords keep True True cs =
         (if gapWords keep False q cs = [] then [] else 32 # gapWords keep False q cs)" for q
  proof (induction cs arbitrary: q)
    case Nil
    then show ?case by simp
  next
    case (Cons d ds)
    from Cons [of True] show ?case by (cases "keep d") auto
  qed
  show ?case
  proof (cases "keep c")
    case True
    with k [of c] Cons show ?thesis by (simp add: trimEnd_Cons)
  next
    case False
    have a: "trimEnd (replaceRunsFrom True (\<lambda>c. \<not> keep c) [32] (c # cs)) = gapWords keep False p (c # cs)"
      using False Cons [of True] by simp
    have b: "trimEnd (replaceRunsFrom False (\<lambda>c. \<not> keep c) [32] (c # cs)) = gapWords keep True False (c # cs)"
      using False Cons [of True] sp pend [of True] by (simp add: trimEnd_Cons)
    from a b show ?thesis by simp
  qed
qed

lemma trimStart_gapWords:
  assumes k: "\<And>c. keep c \<Longrightarrow> \<not> isSpace c"
  shows "trimStart (gapWords keep s p t) = gapWords keep False q t"
proof (induction t arbitrary: s p q)
  case Nil
  then show ?case by (simp add: trimStart_def)
next
  case (Cons c cs)
  have sp: "isSpace 32" by (simp add: isSpace_def)
  show ?case
  proof (cases "keep c")
    case True
    with k [of c] sp show ?thesis by (simp add: trimStart_def)
  next
    case False
    with Cons show ?thesis by simp
  qed
qed

lemma trim_replaceRuns:
  assumes k: "\<And>c. keep c \<Longrightarrow> \<not> isSpace c"
  shows "trim (replaceRuns (\<lambda>c. \<not> keep c) [32] t) = gapWords keep False False t"
  using trimEnd_replaceRuns [OF k, where t = t and p = False]
    trimStart_gapWords [OF k, where s = True and p = False and t = t and q = False]
  by (simp add: trim_def replaceRuns_def)

lemma collapseSpaces_gapWords: "collapseSpaces s = gapWords (\<lambda>c. \<not> isSpace c) False False s"
  using trim_replaceRuns [where keep = "\<lambda>c. \<not> isSpace c" and t = s] by (simp add: collapseSpaces_def)

lemma lowerAlnum_not_space: "isLowerAlnum c \<Longrightarrow> \<not> isSpace c"
  by (auto simp: isLowerAlnum_def isDigit_def isSpace_def)

lemma replaceRuns_space_after:
  "replaceRunsFrom b isSpace [32] (replaceRunsFrom b (\<lambda>c. \<not> isLowerAlnum c) [32] t) =
   replaceRunsFrom b (\<lambda>c. \<not> isLowerAlnum c) [32] t"
proof (induction t arbitrary: b)
  case Nil
  then show ?case by simp
next
  case (Cons c cs)
  have sp: "isSpace 32" by (simp add: isSpace_def)
  show ?case
    using Cons [of True] Cons [of False] sp lowerAlnum_not_space [of c]
    by (cases "isLowerAlnum c"; cases b) simp_all
qed

lemma gapWords_gapOnly: "(\<forall>d \<in> set w. \<not> keep d) \<Longrightarrow> gapWords keep s p w = []"
  by (induction w arbitrary: s p) simp_all

lemma gapState_gapOnly:
  "(\<forall>d \<in> set w. \<not> keep d) \<Longrightarrow> gapState keep (s, p) w = (s, p \<or> w \<noteq> [])"
  by (induction w arbitrary: s p) simp_all

text \<open>The lower-case form of a string and its folded form have the same letters and digits
  with gaps at the same places.\<close>

lemma mapPoint_ge:
  "list_all (\<lambda>(lo, hi, step, target). 128 \<le> target) ranges \<Longrightarrow> 128 \<le> cp \<Longrightarrow>
   128 \<le> mapPoint ranges cp"
  by (induction ranges) auto

lemma lowerRanges_targets: "list_all (\<lambda>(lo, hi, step, target). 128 \<le> target) lowerRanges"
  by code_simp

lemma high_not_alnum: "128 \<le> d \<Longrightarrow> \<not> isLowerAlnum d"
  by (simp add: isLowerAlnum_def isDigit_def)

lemma fromCodePoint_gap:
  "128 \<le> cp \<Longrightarrow> fromCodePoint cp \<noteq> [] \<and> (\<forall>d \<in> set (fromCodePoint cp). \<not> isLowerAlnum d)"
  by (auto simp: fromCodePoint_def intro!: high_not_alnum)

lemma gapWords_gap_chunk:
  "w \<noteq> [] \<Longrightarrow> \<forall>d \<in> set w. \<not> keep d \<Longrightarrow> gapWords keep s p (w @ t) = gapWords keep s True t"
  by (simp add: gapWords_append gapWords_gapOnly gapState_gapOnly)

lemma lowered_chunk:
  assumes "chunk = lowerPoint c \<or> (c = 931 \<and> chunk = [962])"
  shows "concat (map fromCodePoint chunk) = foldUnit c \<or>
         (128 \<le> c \<and> foldUnit c = [c] \<and> concat (map fromCodePoint chunk) \<noteq> [] \<and>
          (\<forall>d \<in> set (concat (map fromCodePoint chunk)). \<not> isLowerAlnum d))"
proof (cases "c < 128 \<or> c = 304 \<or> c = 8490")
  case True
  with assms show ?thesis
    by (auto simp: lowerPoint_def foldUnit_def fromCodePoint_def)
next
  case False
  then have c: "128 \<le> c" "c \<noteq> 304" "c \<noteq> 8490" by auto
  then have f: "foldUnit c = [c]" by (simp add: foldUnit_def)
  from assms c obtain q where q: "chunk = [q]" "128 \<le> q"
    using mapPoint_ge [OF lowerRanges_targets, of c] by (auto simp: lowerPoint_def)
  with fromCodePoint_gap [of q] c f show ?thesis by simp
qed

lemma gapWords_lowered:
  "gapWords isLowerAlnum s p (concat (map fromCodePoint (lowerFrom b (toCodePoints t)))) =
   gapWords isLowerAlnum s p (foldUnits t)"
proof (induction t arbitrary: s p b rule: toCodePoints.induct)
  case 1
  then show ?case by (simp add: foldUnits_def)
next
  case (2 c)
  define chunk where "chunk = (if c = 931 \<and> casedNext b \<and> \<not> casedNext [] then [962] else lowerPoint c)"
  have "chunk = lowerPoint c \<or> (c = 931 \<and> chunk = [962])"
    by (auto simp: chunk_def)
  from lowered_chunk [OF this] show ?case
  proof
    assume "concat (map fromCodePoint chunk) = foldUnit c"
    then show ?thesis by (simp add: foldUnits_def chunk_def)
  next
    assume g: "128 \<le> c \<and> foldUnit c = [c] \<and> concat (map fromCodePoint chunk) \<noteq> [] \<and>
          (\<forall>d \<in> set (concat (map fromCodePoint chunk)). \<not> isLowerAlnum d)"
    then have "gapWords isLowerAlnum s p (concat (map fromCodePoint chunk)) = []"
      by (simp add: gapWords_gapOnly)
    moreover from g have "gapWords isLowerAlnum s p (foldUnit c) = []"
      by (simp add: high_not_alnum)
    ultimately show ?thesis by (simp add: foldUnits_def chunk_def)
  qed
next
  case (3 h l rest)
  show ?case
  proof (cases "isHighSurrogate h \<and> isLowSurrogate l")
    case True
    define cp where "cp = 65536 + (h - 55296) * 1024 + (l - 56320)"
    have cp: "128 \<le> cp" "cp \<noteq> 304" "cp \<noteq> 8490" "cp \<noteq> 931" by (simp_all add: cp_def)
    then obtain q where q: "lowerPoint cp = [q]" "128 \<le> q"
      using mapPoint_ge [OF lowerRanges_targets, of cp] by (auto simp: lowerPoint_def)
    from True have hl: "128 \<le> h" "128 \<le> l" "foldUnit h = [h]" "foldUnit l = [l]"
      by (auto simp: isHighSurrogate_def isLowSurrogate_def foldUnit_def)
    have "gapWords isLowerAlnum s p (concat (map fromCodePoint (lowerFrom b (toCodePoints (h # l # rest))))) =
          gapWords isLowerAlnum s p (fromCodePoint q @
             concat (map fromCodePoint (lowerFrom (cp # b) (toCodePoints rest))))"
      using True cp(4) q(1) by (simp add: cp_def)
    also have "\<dots> = gapWords isLowerAlnum s True
             (concat (map fromCodePoint (lowerFrom (cp # b) (toCodePoints rest))))"
      using fromCodePoint_gap [OF q(2)] by (intro gapWords_gap_chunk) auto
    also have "\<dots> = gapWords isLowerAlnum s True (foldUnits rest)"
      using True by (intro "3.IH"(1)) simp
    also have "\<dots> = gapWords isLowerAlnum s p ([h, l] @ foldUnits rest)"
      using hl by (intro gapWords_gap_chunk [symmetric]) (auto simp: high_not_alnum)
    also have "\<dots> = gapWords isLowerAlnum s p (foldUnits (h # l # rest))"
      using hl by (simp add: foldUnits_def)
    finally show ?thesis .
  next
    case False
    define chunk where "chunk =
      (if h = 931 \<and> casedNext b \<and> \<not> casedNext (toCodePoints (l # rest)) then [962] else lowerPoint h)"
    have ch: "chunk = lowerPoint h \<or> (h = 931 \<and> chunk = [962])"
      by (auto simp: chunk_def)
    have step: "concat (map fromCodePoint (lowerFrom b (toCodePoints (h # l # rest)))) =
          concat (map fromCodePoint chunk) @
          concat (map fromCodePoint (lowerFrom (h # b) (toCodePoints (l # rest))))"
    proof -
      from False have "toCodePoints (h # l # rest) = h # toCodePoints (l # rest)"
        by auto
      then show ?thesis
        by (simp only: lowerFrom.simps chunk_def map_append concat_append)
    qed
    have ih: "gapWords isLowerAlnum s' p'
                (concat (map fromCodePoint (lowerFrom (h # b) (toCodePoints (l # rest))))) =
              gapWords isLowerAlnum s' p' (foldUnits (l # rest))" for s' p'
      using False by (intro "3.IH"(2)) simp
    have fold: "foldUnits (h # l # rest) = foldUnit h @ foldUnits (l # rest)"
      by (simp add: foldUnits_def)
    from lowered_chunk [OF ch] show ?thesis
    proof
      assume "concat (map fromCodePoint chunk) = foldUnit h"
      then show ?thesis
        unfolding step fold gapWords_append by (simp add: ih)
    next
      assume g: "128 \<le> h \<and> foldUnit h = [h] \<and> concat (map fromCodePoint chunk) \<noteq> [] \<and>
          (\<forall>d \<in> set (concat (map fromCodePoint chunk)). \<not> isLowerAlnum d)"
      then have "gapWords isLowerAlnum s p (concat (map fromCodePoint chunk) @
                   concat (map fromCodePoint (lowerFrom (h # b) (toCodePoints (l # rest))))) =
                 gapWords isLowerAlnum s True
                   (concat (map fromCodePoint (lowerFrom (h # b) (toCodePoints (l # rest)))))"
        by (intro gapWords_gap_chunk) auto
      moreover from g have "gapWords isLowerAlnum s p (foldUnit h @ foldUnits (l # rest)) =
                 gapWords isLowerAlnum s True (foldUnits (l # rest))"
        by (intro gapWords_gap_chunk) (auto simp: high_not_alnum)
      ultimately show ?thesis
        unfolding step fold by (simp add: ih)
    qed
  qed
qed

lemma normalizeForMatch_gapWords:
  "normalizeForMatch text = gapWords isLowerAlnum False False (foldUnits text)"
proof -
  have "normalizeForMatch text = gapWords isLowerAlnum False False (toLowerCase text)"
    using trim_replaceRuns [where keep = isLowerAlnum and t = "toLowerCase text"] lowerAlnum_not_space
    by (simp add: normalizeForMatch_def replaceRuns_def replaceRuns_space_after)
  also have "\<dots> = gapWords isLowerAlnum False False (foldUnits text)"
    unfolding toLowerCase_def by (rule gapWords_lowered)
  finally show ?thesis .
qed

lemma foldUnits_append [simp]: "foldUnits (x @ y) = foldUnits x @ foldUnits y"
  by (simp add: foldUnits_def)

text \<open>The normal form of a part of a string occurs in the normal form of the string.\<close>

lemma normalizeForMatch_part:
  "includesStr (normalizeForMatch (x @ y @ z)) (normalizeForMatch y)"
proof -
  let ?G = "gapWords isLowerAlnum"
  obtain s p where st: "gapState isLowerAlnum (False, False) (foldUnits x) = (s, p)"
    by (cases "gapState isLowerAlnum (False, False) (foldUnits x)")
  obtain s' p' where st': "gapState isLowerAlnum (s, p) (foldUnits y) = (s', p')"
    by (cases "gapState isLowerAlnum (s, p) (foldUnits y)")
  have "?G False False (foldUnits (x @ y @ z)) =
        ?G False False (foldUnits x) @ ?G s p (foldUnits y) @ ?G s' p' (foldUnits z)"
    by (simp add: gapWords_append st st')
  moreover obtain pre where "?G s p (foldUnits y) = pre @ ?G False False (foldUnits y)"
    using gapWords_suffix [where keep = isLowerAlnum and q = False and t = "foldUnits y" and s = s and p = p]
    by (auto simp: suffix_def)
  ultimately have "?G False False (foldUnits (x @ y @ z)) =
        (?G False False (foldUnits x) @ pre) @ ?G False False (foldUnits y) @
        ?G s' p' (foldUnits z)"
    by simp
  then show ?thesis
    unfolding includesStr_def normalizeForMatch_gapWords sublist_def by blast
qed

subsection \<open>Token matching\<close>

lemma normalizeForMatch_Nil [simp]: "normalizeForMatch [] = []"
  by (simp add: normalizeForMatch_gapWords foldUnits_def)

text \<open>The normal form of the code is the normal form of the amended claim.\<close>

lemma wordsFrom_nonempty: "[] \<notin> set (wordsFrom P w t)"
  by (induction t arbitrary: w) auto

lemma join_Nil_iff: "[] \<notin> set ws \<Longrightarrow> join sep ws = [] \<longleftrightarrow> ws = []"
  by (induction sep ws rule: join.induct) auto

lemma join_Cons: "join sep (w # ws) = (if ws = [] then w else w @ sep @ join sep ws)"
  by (cases ws) simp_all

lemma gapWords_pending:
  "gapWords keep True True cs =
     (if gapWords keep False q cs = [] then [] else 32 # gapWords keep False q cs)"
proof (induction cs arbitrary: q)
  case Nil
  then show ?case by simp
next
  case (Cons d ds)
  from Cons [of True] show ?case by (cases "keep d") auto
qed

lemma gapWords_wordsFrom:
  "(w \<noteq> [] \<longrightarrow> join [32] (wordsFrom K w t) = w @ gapWords K True False t) \<and>
   join [32] (wordsFrom K [] t) = gapWords K False p t"
proof (induction t arbitrary: w p)
  case Nil
  then show ?case by simp
next
  case (Cons c cs)
  show ?case
  proof (cases "K c")
    case True
    with Cons [of "w @ [c]" p] Cons [of "[c]" p] show ?thesis by simp
  next
    case False
    let ?ws = "wordsFrom K [] cs"
    have ws: "join [32] ?ws = gapWords K False True cs"
      using Cons [of "[]" True] by simp
    have e: "join [32] ?ws = [] \<longleftrightarrow> ?ws = []"
      by (rule join_Nil_iff) (rule wordsFrom_nonempty)
    have one: "w \<noteq> [] \<longrightarrow> join [32] (wordsFrom K w (c # cs)) = w @ gapWords K True False (c # cs)"
    proof
      assume w: "w \<noteq> []"
      with False have "join [32] (wordsFrom K w (c # cs)) = join [32] (w # ?ws)" by simp
      also have "\<dots> = (if ?ws = [] then w else w @ [32] @ join [32] ?ws)"
        by (rule join_Cons)
      also have "\<dots> = w @ gapWords K True True cs"
        using e ws gapWords_pending [of K cs True] by auto
      finally show "join [32] (wordsFrom K w (c # cs)) = w @ gapWords K True False (c # cs)"
        using False by simp
    qed
    have two: "join [32] (wordsFrom K [] (c # cs)) = gapWords K False p (c # cs)"
      using False ws by simp
    from one two show ?thesis by simp
  qed
qed

lemma asciiLetterOrDigit_eq: "asciiLetterOrDigit = isLowerAlnum"
  by (rule ext) (simp add: asciiLetterOrDigit_def isLowerAlnum_def isDigit_def)

lemma matchForm_eq: "matchForm text = normalizeForMatch text"
proof -
  have "matchForm text = gapWords isLowerAlnum False False (toLowerCase text)"
    using gapWords_wordsFrom [of "[]" isLowerAlnum "toLowerCase text" False]
    by (simp add: matchForm_def asciiLetterOrDigit_eq)
  also have "\<dots> = gapWords isLowerAlnum False False (foldUnits text)"
    unfolding toLowerCase_def by (rule gapWords_lowered)
  finally show ?thesis
    by (simp only: normalizeForMatch_gapWords)
qed

lemma variantMatches_iff:
  "variantMatches ns v \<longleftrightarrow>
   3 \<le> length (normalizeForMatch v) \<and> includesStr ns (normalizeForMatch v)"
  by (simp add: variantMatches_def matchForm_eq includesStr_def)

lemma variantMatches_Nil [simp]: "\<not> variantMatches ns []"
  by (simp add: variantMatches_iff)

lemma variantFound_iff: "variantFound ns vs \<longleftrightarrow> list_ex (variantMatches ns) vs"
  by (induction vs) (auto simp: variantMatches_iff Let_def)

lemma set_setAdd [simp]: "set (setAdd xs x) = insert x (set xs)"
  by (auto simp: setAdd_def)

lemma expandTokenVariants_matches:
  "list_ex (variantMatches ns) (expandTokenVariants token) \<longleftrightarrow>
   list_ex (variantMatches ns) (variantsOfToken token)"
proof (cases "trim token = []")
  case True
  have "lastSegment [] = []" by (simp add: lastSegment_def)
  moreover have "stripExtension [] = []" by (simp add: stripExtension_def)
  moreover have "stripLeadingMarks [] = []" by (simp add: stripLeadingMarks_def)
  ultimately show ?thesis
    using True by (simp add: expandTokenVariants_def variantsOfToken_def Let_def)
next
  case False
  define t where "t = trim token"
  define V where "V = variantMatches ns"
  have V0: "\<not> V []" by (simp add: V_def)
  have "(\<exists>v \<in> set (expandTokenVariants token). V v) \<longleftrightarrow>
        V t \<or> V (stripLeadingMarks t) \<or> V (lastSegment t) \<or> V (stripExtension (lastSegment t))"
    using False V0
    by (auto simp: expandTokenVariants_def Let_def t_def [symmetric])
  then show ?thesis
    by (simp add: list_ex_iff variantsOfToken_def Let_def t_def V_def)
qed

lemma matchLoop_set:
  "set (matchLoop ns ts acc) = set acc \<union> {t \<in> set ts. variantFound ns (expandTokenVariants t)}"
  by (induction ts arbitrary: acc) auto

lemma matchLoop_distinct: "distinct acc \<Longrightarrow> distinct (matchLoop ns ts acc)"
  by (induction ts arbitrary: acc) auto

lemma matchedTokens_set:
  "set (matchedTokens (matchRequiredTokens subject tokens n)) =
   {t \<in> set tokens. tokenMatched subject t}"
  by (auto simp: matchRequiredTokens_def Let_def matchLoop_set variantFound_iff
        expandTokenVariants_matches tokenMatched_def matchForm_eq)

lemma matchedTokens_distinct: "distinct (matchedTokens (matchRequiredTokens subject tokens n))"
  by (simp add: matchRequiredTokens_def Let_def matchLoop_distinct)

lemma ok_iff_card:
  "ok (matchRequiredTokens subject tokens n) \<longleftrightarrow>
   tokens = [] \<or> max 1 n \<le> int (card {t \<in> set tokens. tokenMatched subject t})"
proof (cases "tokens = []")
  case True
  then show ?thesis by (simp add: matchRequiredTokens_def)
next
  case False
  let ?m = "matchedTokens (matchRequiredTokens subject tokens n)"
  have "length ?m = card (set ?m)"
    using matchedTokens_distinct [of subject tokens n] by (simp add: distinct_card)
  then have "length ?m = card {t \<in> set tokens. tokenMatched subject t}"
    by (simp only: matchedTokens_set)
  moreover have "ok (matchRequiredTokens subject tokens n) \<longleftrightarrow> max 1 n \<le> int (length ?m)"
    using False by (simp add: matchRequiredTokens_def Let_def)
  ultimately show ?thesis using False by simp
qed

lemma bar_matched: "tokenMatched (pre @ js ''bar'' @ post) (js ''src/foo/bar.ts'')"
proof -
  have v: "stripExtension (lastSegment (trim (js ''src/foo/bar.ts''))) = js ''bar''"
    by code_simp
  have n: "normalizeForMatch (js ''bar'') = js ''bar''"
    by code_simp
  have l: "length (js ''bar'') = 3" by (simp add: js_def)
  have "variantMatches (normalizeForMatch (pre @ js ''bar'' @ post)) (js ''bar'')"
    unfolding variantMatches_iff using normalizeForMatch_part [of pre "js ''bar''" post] n l
    by simp
  then show ?thesis
    by (simp add: tokenMatched_def variantsOfToken_def Let_def v matchForm_eq)
qed

text \<open>
  C2, as the claim states it, fails. The normal form of the code is trimmed, and only the
  ASCII letters and the digits count as alphanumeric. The token \<^verbatim>\<open>.vs\<close> (the top-level
  directory of \<^verbatim>\<open>.vs/settings.json\<close>) has, lower-cased and with its runs of other characters
  collapsed to single spaces, the form of three characters \<^verbatim>\<open> vs\<close>, which occurs in the
  form of the subject \<^verbatim>\<open>update vs settings\<close>; the claim counts the token as matched. The
  code trims the form to the two characters \<^verbatim>\<open>vs\<close>, skips the variant and matches nothing.
  A token in another script has an empty normal form: \<open>chineseToken\<close> is not matched by
  \<open>chineseSubject\<close>, which ends with the token. The variants are taken of the trimmed
  token: of the token \<^verbatim>\<open>bar.ts\<close> followed by a space, taken as it is, no variant loses
  the extension and none has a form that occurs in \<^verbatim>\<open>fix bar\<close>, yet the code matches it.
\<close>

theorem matchRequiredTokens_form_counterexample:
  "statedForm (js ''.vs'') = js '' vs'' \<and>
   length (statedForm (js ''.vs'')) = 3 \<and>
   statedForm (js ''update vs settings'') = js ''update vs settings'' \<and>
   sublist (statedForm (js ''.vs'')) (statedForm (js ''update vs settings'')) \<and>
   matchedTokens (matchRequiredTokens (js ''update vs settings'') [js ''.vs''] 1) = [] \<and>
   ok (matchRequiredTokens (js ''update vs settings'') [js ''.vs''] 1) = False \<and>
   suffix chineseToken chineseSubject \<and>
   normalizeForMatch chineseToken = [] \<and>
   matchedTokens (matchRequiredTokens chineseSubject [chineseToken] 1) = [] \<and>
   ok (matchRequiredTokens chineseSubject [chineseToken] 1) = False \<and>
   map statedForm (statedVariants (js ''bar.ts '')) =
     [js ''bar ts '', js ''bar ts '', js ''bar ts '', js ''bar ts ''] \<and>
   list_ex (\<lambda>v. 3 \<le> length (statedForm v) \<and> sublist (statedForm v) (statedForm (js ''fix bar'')))
     (statedVariants (js ''bar.ts '')) = False \<and>
   matchedTokens (matchRequiredTokens (js ''fix bar'') [js ''bar.ts ''] 1) = [js ''bar.ts '']"
  by code_simp

text \<open>
  C2, amended. The normal form is \<open>matchForm\<close>: the words of the lower-cased text, made of
  the ASCII letters and the digits, with single spaces between them. The tokens that
  \<^verbatim>\<open>matchRequiredTokens\<close> counts as matched are exactly the tokens of the list for which one
  of the four variants has a normal form of at least three characters that occurs in the
  normal form of the subject; each is counted once, and the result is \<^verbatim>\<open>ok\<close> when the list
  is empty or the number of such tokens reaches the required count (at least one). The
  token \<^verbatim>\<open>src/foo/bar.ts\<close> is matched by every subject that contains \<^verbatim>\<open>bar\<close>, also by one
  that writes it in capitals, and not by the subject \<^verbatim>\<open>update foo\<close>.
\<close>

theorem matchRequiredTokens_variants:
  "set (matchedTokens (matchRequiredTokens subject tokens requiredCount)) =
     {t \<in> set tokens. tokenMatched subject t} \<and>
   distinct (matchedTokens (matchRequiredTokens subject tokens requiredCount)) \<and>
   (ok (matchRequiredTokens subject tokens requiredCount) \<longleftrightarrow>
      tokens = [] \<or>
      max 1 requiredCount \<le> int (card {t \<in> set tokens. tokenMatched subject t})) \<and>
   ok (matchRequiredTokens (pre @ js ''bar'' @ post) [js ''src/foo/bar.ts''] 1) \<and>
   \<not> ok (matchRequiredTokens (js ''update foo'') [js ''src/foo/bar.ts''] 1) \<and>
   variantsOfToken (js '' ./src/foo/Bar.test.ts '') =
     [js ''./src/foo/Bar.test.ts'', js ''src/foo/Bar.test.ts'', js ''Bar.test.ts'', js ''Bar.test''] \<and>
   matchForm (js '' Rename  BAR_Handler.TS (v2)! '') = js ''rename bar handler ts v2'' \<and>
   matchForm (js ''.vs'') = js ''vs'' \<and>
   matchForm chineseSubject = [] \<and>
   matchedTokens (matchRequiredTokens (js ''Rename  BAR_Handler.TS (v2)!'')
      [js ''src/foo/bar.ts'', js ''src/foo'', js ''handler.ts'', js ''#V2'']  2) =
     [js ''src/foo/bar.ts'', js ''handler.ts'']"
proof (intro conjI)
  have "{t \<in> set [js ''src/foo/bar.ts'']. tokenMatched (pre @ js ''bar'' @ post) t} =
        {js ''src/foo/bar.ts''}"
    using bar_matched [of pre post] by auto
  then show "ok (matchRequiredTokens (pre @ js ''bar'' @ post) [js ''src/foo/bar.ts''] 1)"
    by (simp only: ok_iff_card) simp
  show "\<not> ok (matchRequiredTokens (js ''update foo'') [js ''src/foo/bar.ts''] 1)"
    by code_simp
  show "variantsOfToken (js '' ./src/foo/Bar.test.ts '') =
     [js ''./src/foo/Bar.test.ts'', js ''src/foo/Bar.test.ts'', js ''Bar.test.ts'', js ''Bar.test'']"
    by code_simp
  show "matchForm (js '' Rename  BAR_Handler.TS (v2)! '') = js ''rename bar handler ts v2''"
    by code_simp
  show "matchForm (js ''.vs'') = js ''vs''"
    by code_simp
  show "matchForm chineseSubject = []"
    by code_simp
  show "matchedTokens (matchRequiredTokens (js ''Rename  BAR_Handler.TS (v2)!'')
      [js ''src/foo/bar.ts'', js ''src/foo'', js ''handler.ts'', js ''#V2'']  2) =
     [js ''src/foo/bar.ts'', js ''handler.ts'']"
    by code_simp
qed (rule matchedTokens_set matchedTokens_distinct ok_iff_card)+

subsection \<open>Normal forms are stable under trimming, collapsing and capitalizing\<close>

lemma foldUnit_space: "isSpace c \<Longrightarrow> foldUnit c = [c]"
  by (auto simp: isSpace_def foldUnit_def)

lemma foldUnits_spaces:
  "(\<forall>c \<in> set w. isSpace c) \<Longrightarrow> \<forall>d \<in> set (foldUnits w). \<not> isLowerAlnum d"
  by (induction w) (auto simp: foldUnits_def foldUnit_space dest: lowerAlnum_not_space)

lemma normalizeForMatch_leading_spaces:
  assumes "\<forall>c \<in> set w. isSpace c"
  shows "normalizeForMatch (w @ t) = normalizeForMatch t"
proof -
  have g: "\<forall>d \<in> set (foldUnits w). \<not> isLowerAlnum d"
    using assms by (rule foldUnits_spaces)
  have "normalizeForMatch (w @ t) =
        gapWords isLowerAlnum False (foldUnits w \<noteq> []) (foldUnits t)"
    by (simp add: normalizeForMatch_gapWords gapWords_append gapWords_gapOnly [OF g]
          gapState_gapOnly [OF g])
  also have "\<dots> = gapWords isLowerAlnum False False (foldUnits t)"
    by (rule gapWords_unstarted)
  finally show ?thesis
    by (simp only: normalizeForMatch_gapWords)
qed

lemma normalizeForMatch_trailing_spaces:
  assumes "\<forall>c \<in> set w. isSpace c"
  shows "normalizeForMatch (t @ w) = normalizeForMatch t"
proof -
  have g: "\<forall>d \<in> set (foldUnits w). \<not> isLowerAlnum d"
    using assms by (rule foldUnits_spaces)
  show ?thesis
    unfolding normalizeForMatch_gapWords foldUnits_append gapWords_append
      gapWords_gapOnly [OF g]
    by simp
qed

lemma normalizeForMatch_trimStart: "normalizeForMatch (trimStart s) = normalizeForMatch s"
proof -
  have "normalizeForMatch (takeWhile isSpace s @ dropWhile isSpace s) =
        normalizeForMatch (dropWhile isSpace s)"
    by (rule normalizeForMatch_leading_spaces) (auto dest: set_takeWhileD)
  then show ?thesis by (simp add: trimStart_def)
qed

lemma normalizeForMatch_trimEnd: "normalizeForMatch (trimEnd s) = normalizeForMatch s"
proof -
  have "s = trimEnd s @ rev (takeWhile isSpace (rev s))"
    unfolding trimEnd_def
    by (metis rev_append rev_rev_ident takeWhile_dropWhile_id)
  moreover have "normalizeForMatch (trimEnd s @ rev (takeWhile isSpace (rev s))) =
        normalizeForMatch (trimEnd s)"
    by (rule normalizeForMatch_trailing_spaces) (auto dest: set_takeWhileD)
  ultimately show ?thesis by simp
qed

lemma normalizeForMatch_trim [simp]: "normalizeForMatch (trim s) = normalizeForMatch s"
  by (simp add: trim_def normalizeForMatch_trimStart normalizeForMatch_trimEnd)

lemma gapWords_lower_replaceRuns:
  "(b \<longrightarrow> p) \<Longrightarrow>
   gapWords isLowerAlnum s p (foldUnits (replaceRunsFrom b isSpace [32] x)) =
   gapWords isLowerAlnum s p (foldUnits x)"
proof (induction x arbitrary: b s p)
  case Nil
  then show ?case by simp
next
  case (Cons c cs)
  have sp: "isSpace 32" by (simp add: isSpace_def)
  have l32: "foldUnits (32 # u) = 32 # foldUnits u" for u
    by (simp add: foldUnits_def foldUnit_def)
  have n32: "\<not> isLowerAlnum 32" by (simp add: isLowerAlnum_def isDigit_def)
  show ?case
  proof (cases "isSpace c")
    case True
    then have lc: "foldUnits (c # u) = c # foldUnits u" for u
      by (simp add: foldUnits_def foldUnit_space)
    from True have nc: "\<not> isLowerAlnum c" by (auto dest: lowerAlnum_not_space)
    show ?thesis
    proof (cases b)
      case True
      with Cons.prems have p by simp
      with \<open>isSpace c\<close> True Cons.IH [of True True s] nc show ?thesis
        by (simp add: lc)
    next
      case False
      with \<open>isSpace c\<close> Cons.IH [of True True s] nc n32 show ?thesis
        by (simp add: lc l32)
    qed
  next
    case False
    have split: "foldUnits (c # u) = foldUnit c @ foldUnits u" for u
      by (simp add: foldUnits_def)
    obtain s1 p1 where st: "gapState isLowerAlnum (s, p) (foldUnit c) = (s1, p1)"
      by (cases "gapState isLowerAlnum (s, p) (foldUnit c)")
    from False Cons.IH [of False p1 s1] show ?thesis
      by (simp add: split gapWords_append st)
  qed
qed

lemma normalizeForMatch_collapseSpaces [simp]:
  "normalizeForMatch (collapseSpaces s) = normalizeForMatch s"
proof -
  have "normalizeForMatch (collapseSpaces s) = normalizeForMatch (replaceRuns isSpace [32] s)"
    by (simp add: collapseSpaces_def)
  also have "\<dots> = gapWords isLowerAlnum False False
                     (foldUnits (replaceRunsFrom False isSpace [32] s))"
    by (simp only: normalizeForMatch_gapWords replaceRuns_def)
  also have "\<dots> = gapWords isLowerAlnum False False (foldUnits s)"
    by (rule gapWords_lower_replaceRuns) simp
  also have "\<dots> = normalizeForMatch s"
    by (simp only: normalizeForMatch_gapWords)
  finally show ?thesis .
qed

lemma foldUnits_Cons: "foldUnits (c # cs) = foldUnit c @ foldUnits cs"
  by (simp add: foldUnits_def)

lemma upperUnit_kelvin: "upperUnit 8490 = [8490]"
  by code_simp

lemma upperUnit_dotted: "upperUnit 304 = [304]"
  by code_simp

lemma foldUnits_upperUnit:
  "c < 128 \<or> c = 8490 \<or> c = 304 \<Longrightarrow> foldUnits (upperUnit c) = foldUnit c"
proof (elim disjE)
  assume "c < 128"
  then show ?thesis by (auto simp: foldUnits_def upperUnit_def foldUnit_def)
next
  assume "c = 8490"
  then show ?thesis by (simp add: upperUnit_kelvin foldUnits_def)
next
  assume "c = 304"
  then show ?thesis by (simp add: upperUnit_dotted foldUnits_def)
qed

lemma normalizeForMatch_leading_unit:
  assumes "128 \<le> c" "c \<noteq> 8490" "c \<noteq> 304"
  shows "normalizeForMatch (c # cs) = normalizeForMatch cs"
proof -
  from assms have f: "foldUnits (c # cs) = [c] @ foldUnits cs"
    by (simp add: foldUnits_def foldUnit_def)
  have "gapWords isLowerAlnum False False ([c] @ foldUnits cs) =
        gapWords isLowerAlnum False True (foldUnits cs)"
    using assms(1) by (intro gapWords_gap_chunk) (auto simp: high_not_alnum)
  also have "\<dots> = gapWords isLowerAlnum False False (foldUnits cs)"
    by (rule gapWords_unstarted)
  finally show ?thesis
    by (simp only: normalizeForMatch_gapWords f)
qed

text \<open>Capitalizing the first character keeps every word of the normal form: an ASCII letter
  keeps its normal form, and any other first character is a gap before and can only add
  letters in front of the first word.\<close>

lemma applySubjectStyle_keeps:
  "includesStr (normalizeForMatch (applySubjectStyle lg style s)) (normalizeForMatch s)"
proof (cases "style = Sentence \<and> lg = En")
  case False
  then show ?thesis by (auto simp: applySubjectStyle_def includesStr_def)
next
  case True
  show ?thesis
  proof (cases s)
    case Nil
    with True show ?thesis by (simp add: applySubjectStyle_def includesStr_def)
  next
    case (Cons c cs)
    with True have a: "applySubjectStyle lg style s = upperUnit c @ cs"
      by (simp add: applySubjectStyle_def)
    show ?thesis
    proof (cases "c < 128 \<or> c = 8490 \<or> c = 304")
      case True
      then have "foldUnits (upperUnit c @ cs) = foldUnits (c # cs)"
        using foldUnits_upperUnit [of c] by (simp add: foldUnits_Cons)
      then have "normalizeForMatch (upperUnit c @ cs) = normalizeForMatch (c # cs)"
        by (simp only: normalizeForMatch_gapWords)
      with a Cons show ?thesis by (simp add: includesStr_def)
    next
      case False
      then have "normalizeForMatch (c # cs) = normalizeForMatch cs"
        by (intro normalizeForMatch_leading_unit) auto
      moreover have "includesStr (normalizeForMatch (upperUnit c @ cs)) (normalizeForMatch cs)"
        using normalizeForMatch_part [of "upperUnit c" cs "[]"] by simp
      ultimately show ?thesis using a Cons by simp
    qed
  qed
qed

lemma normalizeForMatch_short: "length s \<le> 1 \<Longrightarrow> length (normalizeForMatch s) \<le> 1"
proof (cases s)
  case Nil
  then show ?thesis by simp
next
  case (Cons c cs)
  assume "length s \<le> 1"
  with Cons have "s = [c]" by simp
  then show ?thesis
    by (simp add: normalizeForMatch_gapWords foldUnits_def foldUnit_def isLowerAlnum_def
          isDigit_def)
qed

lemma includesStr_trans:
  "includesStr a b \<Longrightarrow> includesStr b c \<Longrightarrow> includesStr a c"
  unfolding includesStr_def by (rule sublist_order.order.trans)

lemma includesStr_length: "includesStr a b \<Longrightarrow> length b \<le> length a"
  unfolding includesStr_def by (rule sublist_length_le)

subsection \<open>Synthesis and its validator\<close>

lemma buildSubjectFragment_shape:
  "\<exists>d. buildSubjectFragment f = trim (lastSegment (path f) @ [32] @ d)"
  unfolding buildSubjectFragment_def Let_def by blast

lemma fragment_contains_base:
  "includesStr (normalizeForMatch (buildSubjectFragment f))
     (normalizeForMatch (lastSegment (path f)))"
proof -
  obtain d where d: "buildSubjectFragment f = trim (lastSegment (path f) @ [32] @ d)"
    using buildSubjectFragment_shape by blast
  show ?thesis
    using normalizeForMatch_part [of "[]" "lastSegment (path f)" "[32] @ d"]
    by (simp add: d)
qed

lemma ensureSubjectLength1_shape:
  "ensureSubjectLength1 lg subj diff toks m = subj \<or>
   (\<exists>z. ensureSubjectLength1 lg subj diff toks m = collapseSpaces (subj @ z))"
proof (cases "m \<le> 0 \<or> length subj \<ge> m")
  case True
  then show ?thesis by (simp add: ensureSubjectLength1_def)
next
  case False
  let ?fs = "buildDetailFragments diff"
  let ?snippet = "tokenSnippetOf 6 toks"
  let ?all = "detailsPrefix lg @
      (if length ?fs \<noteq> 0 then join (fragmentJoiner lg) ?fs else []) @ ?snippet"
  let ?four = "detailsPrefix lg @ join (fragmentJoiner lg) (take 4 ?fs) @ ?snippet"
  have "ensureSubjectLength1 lg subj diff toks m = collapseSpaces (subj @ ?all) \<or>
        ensureSubjectLength1 lg subj diff toks m = collapseSpaces (subj @ ?four)"
    using False by (simp add: ensureSubjectLength1_def Let_def)
  then show ?thesis by blast
qed

lemma synthesize_draft:
  assumes "rankFiles (files diff) = primary # rest"
    and "buildSubjectFragment primary \<noteq> []"
    and "n \<le> 1"
  shows "synthesize lg style diff toks n = Draft (updateWord lg @ buildSubjectFragment primary)"
  using assms by (simp add: synthesize_def Let_def)

lemma ensureSubjectLength1_keeps:
  "includesStr (normalizeForMatch (ensureSubjectLength1 lg subj diff toks m)) (normalizeForMatch subj)"
proof -
  have self: "includesStr (normalizeForMatch subj) (normalizeForMatch subj)"
    by (simp add: includesStr_def)
  from ensureSubjectLength1_shape [of lg subj diff toks m] show ?thesis
  proof
    assume "ensureSubjectLength1 lg subj diff toks m = subj"
    with self show ?thesis by simp
  next
    assume "\<exists>z. ensureSubjectLength1 lg subj diff toks m = collapseSpaces (subj @ z)"
    then obtain z where "ensureSubjectLength1 lg subj diff toks m = collapseSpaces (subj @ z)" ..
    then show ?thesis
      using normalizeForMatch_part [of "[]" subj z] by simp
  qed
qed

lemma gapUnit_trailing: "isTrailing c \<Longrightarrow> gapUnit c"
  by (auto simp: isTrailing_def isSpace_def gapUnit_def foldUnit_def isLowerAlnum_def isDigit_def)

lemma foldUnits_gapUnits:
  "(\<forall>c \<in> set w. gapUnit c) \<Longrightarrow> \<forall>d \<in> set (foldUnits w). \<not> isLowerAlnum d"
  by (induction w) (auto simp: foldUnits_def gapUnit_def list_all_iff)

lemma normalizeForMatch_trailing_gap:
  assumes "\<forall>c \<in> set w. gapUnit c"
  shows "normalizeForMatch (t @ w) = normalizeForMatch t"
proof -
  have g: "\<forall>d \<in> set (foldUnits w). \<not> isLowerAlnum d"
    using assms by (rule foldUnits_gapUnits)
  show ?thesis
    unfolding normalizeForMatch_gapWords foldUnits_append gapWords_append
      gapWords_gapOnly [OF g]
    by simp
qed

lemma normalizeForMatch_strip_trailing:
  "normalizeForMatch (rev (dropWhile isTrailing (rev u))) = normalizeForMatch u"
proof -
  have "u = rev (dropWhile isTrailing (rev u)) @ rev (takeWhile isTrailing (rev u))"
    by (metis rev_append rev_rev_ident takeWhile_dropWhile_id)
  moreover have "normalizeForMatch (rev (dropWhile isTrailing (rev u)) @ rev (takeWhile isTrailing (rev u))) =
        normalizeForMatch (rev (dropWhile isTrailing (rev u)))"
    by (rule normalizeForMatch_trailing_gap) (auto dest: set_takeWhileD intro: gapUnit_trailing)
  ultimately show ?thesis by simp
qed

lemma collapseSpaces_prefix: "prefix (collapseSpaces d) (collapseSpaces (d @ z))"
  by (simp add: collapseSpaces_gapWords gapWords_append)

lemma collapseSpaces_idem: "collapseSpaces (collapseSpaces x) = collapseSpaces x"
proof -
  have "\<not> (\<lambda>c. \<not> isSpace c) 32" by (simp add: isSpace_def)
  then show ?thesis
    unfolding collapseSpaces_gapWords
    by (rule gapWords_idem [where keep = "\<lambda>c. \<not> isSpace c" and s = False and p = False])
qed

lemma collapseSpaces_set: "set (collapseSpaces x) \<subseteq> insert 32 (set x)"
  by (simp add: collapseSpaces_gapWords gapWords_set)

lemma collapseSpaces_last: "collapseSpaces x \<noteq> [] \<Longrightarrow> \<not> isSpace (last (collapseSpaces x))"
  unfolding collapseSpaces_gapWords
  using gapWords_last [where keep = "\<lambda>c. \<not> isSpace c"] by blast

lemma length_replaceRunsFrom: "length (replaceRunsFrom b P [32] t) \<le> length t"
proof (induction t arbitrary: b)
  case Nil
  then show ?case by simp
next
  case (Cons c cs)
  from Cons [of True] Cons [of False] show ?case
    by (auto simp: le_SucI)
qed

lemma length_collapseSpaces: "length (collapseSpaces x) \<le> length x"
proof -
  have "length (collapseSpaces x) \<le> length (replaceRuns isSpace [32] x)"
    unfolding collapseSpaces_def by (rule length_trim_le)
  also have "\<dots> \<le> length x"
    unfolding replaceRuns_def by (rule length_replaceRunsFrom)
  finally show ?thesis .
qed

lemma indexOf_occurs: "indexOf v sep = Some i \<Longrightarrow> prefix sep (drop i v)"
proof (induction v arbitrary: i)
  case Nil
  then show ?case by (simp split: if_splits)
next
  case (Cons c cs)
  show ?case
  proof (cases "prefix sep (c # cs)")
    case True
    with Cons.prems show ?thesis by simp
  next
    case False
    with Cons.prems obtain j where j: "indexOf cs sep = Some j" "i = Suc j"
      by (auto split: option.splits)
    from Cons.IH [OF j(1)] j(2) show ?thesis by simp
  qed
qed

lemma cutAtSeparator_origin:
  "cutAtSeparator v m seps = Some t \<Longrightarrow>
   \<exists>sep i. sep \<in> set seps \<and> indexOf v sep = Some i \<and> t = trim (take i v)"
proof (induction seps)
  case Nil
  then show ?case by simp
next
  case (Cons sep seps)
  show ?case
  proof (cases "indexOf v sep")
    case None
    with Cons show ?thesis by auto
  next
    case (Some i)
    show ?thesis
    proof (cases "i > 0 \<and> i \<le> m \<and> length (trim (take i v)) \<ge> 10")
      case True
      with Some Cons.prems have "t = trim (take i v)" by simp
      with Some show ?thesis by auto
    next
      case False
      with Some Cons.prems have "cutAtSeparator v m seps = Some t" by auto
      from Cons.IH [OF this] show ?thesis by auto
    qed
  qed
qed

text \<open>A separator cannot start inside a prefix that holds no separator character and does
  not end in white space.\<close>

lemma separator_behind_prefix:
  assumes pre: "prefix P v"
    and clean: "\<forall>c \<in> set P. c \<notin> set separatorUnits"
    and lastP: "P \<noteq> [] \<Longrightarrow> \<not> isSpace (last P)"
    and sep: "sep \<in> set separators"
    and idx: "indexOf v sep = Some i"
  shows "length P \<le> i"
proof (rule ccontr)
  assume "\<not> length P \<le> i"
  then have lt: "i < length P" by simp
  then have Pne: "P \<noteq> []" by auto
  from pre obtain rest where v: "v = P @ rest" by (auto simp: prefix_def)
  from indexOf_occurs [OF idx] have occ: "prefix sep (drop i v)" .
  have at: "v ! i = P ! i" using lt v by (simp add: nth_append)
  from sep have "sep = [32, 8212, 32] \<or> sep = [65292] \<or> sep = [59] \<or> sep = [44] \<or> sep = [58]"
    by (simp add: separators_def)
  then show False
  proof (elim disjE)
    assume s: "sep = [32, 8212, 32]"
    from occ s obtain more where d: "drop i v = 32 # 8212 # 32 # more"
      by (auto simp: prefix_def)
    then have v0: "v ! i = 32" and v1: "v ! Suc i = 8212"
      by (metis Cons_nth_drop_Suc drop_eq_Nil2 leI list.distinct(1) list.inject nth_via_drop,
          metis Cons_nth_drop_Suc drop_Suc drop_eq_Nil2 leI list.distinct(1) list.inject nth_via_drop tl_drop list.sel(3))
    show False
    proof (cases "Suc i < length P")
      case True
      then have "P ! Suc i = 8212" using v v1 by (simp add: nth_append)
      with True have "8212 \<in> set P" by (metis nth_mem)
      with clean show False by (auto simp: separatorUnits_def)
    next
      case False
      with lt have "i = length P - 1" by simp
      with Pne have "last P = P ! i" by (simp add: last_conv_nth)
      with at v0 have "last P = 32" by simp
      with lastP [OF Pne] show False by (simp add: isSpace_def)
    qed
  next
    assume s: "sep = [65292]"
    with occ have "v ! i = 65292" by (auto simp: prefix_def nth_via_drop)
    with at lt have "65292 \<in> set P" by (metis nth_mem)
    with clean show False by (auto simp: separatorUnits_def)
  next
    assume s: "sep = [59]"
    with occ have "v ! i = 59" by (auto simp: prefix_def nth_via_drop)
    with at lt have "59 \<in> set P" by (metis nth_mem)
    with clean show False by (auto simp: separatorUnits_def)
  next
    assume s: "sep = [44]"
    with occ have "v ! i = 44" by (auto simp: prefix_def nth_via_drop)
    with at lt have "44 \<in> set P" by (metis nth_mem)
    with clean show False by (auto simp: separatorUnits_def)
  next
    assume s: "sep = [58]"
    with occ have "v ! i = 58" by (auto simp: prefix_def nth_via_drop)
    with at lt have "58 \<in> set P" by (metis nth_mem)
    with clean show False by (auto simp: separatorUnits_def)
  qed
qed

lemma prefix_part: "prefix P u \<Longrightarrow> includesStr (normalizeForMatch u) (normalizeForMatch P)"
proof -
  assume "prefix P u"
  then obtain rest where "u = P @ rest" by (auto simp: prefix_def)
  then show ?thesis using normalizeForMatch_part [of "[]" P rest] by simp
qed

lemma trimToMax_keeps_prefix:
  assumes pre: "prefix P v"
    and len: "length P \<le> m"
    and clean: "\<forall>c \<in> set P. c \<notin> set separatorUnits"
    and lastP: "P \<noteq> [] \<Longrightarrow> \<not> isSpace (last P)"
  shows "includesStr (normalizeForMatch (trimToMax v m)) (normalizeForMatch P)"
proof (cases "m \<le> 0 \<or> length v \<le> m")
  case True
  then show ?thesis using pre by (simp add: trimToMax_def prefix_part)
next
  case False
  show ?thesis
  proof (cases "cutAtSeparator v m separators")
    case None
    have "prefix P (take m v)"
      using pre len by (auto simp: prefix_def)
    then have "includesStr (normalizeForMatch (take m v)) (normalizeForMatch P)"
      by (rule prefix_part)
    with None False show ?thesis
      by (simp add: trimToMax_def normalizeForMatch_strip_trailing)
  next
    case (Some t)
    from cutAtSeparator_origin [OF Some] obtain sep i where
      s: "sep \<in> set separators" "indexOf v sep = Some i" "t = trim (take i v)" by blast
    have "length P \<le> i"
      using pre clean lastP s(1,2) by (rule separator_behind_prefix)
    then have "prefix P (take i v)"
      using pre by (auto simp: prefix_def)
    then have "includesStr (normalizeForMatch (take i v)) (normalizeForMatch P)"
      by (rule prefix_part)
    with Some False s(3) show ?thesis
      by (simp add: trimToMax_def)
  qed
qed

text \<open>Trimming and prefixes.\<close>

lemma trimEnd_append:
  "trimEnd (a @ b) = (if trimEnd b = [] then trimEnd a else a @ trimEnd b)"
proof -
  have "(\<forall>x \<in> set (rev b). isSpace x) \<longleftrightarrow> dropWhile isSpace (rev b) = []"
    by (simp add: dropWhile_eq_Nil_conv)
  then show ?thesis
    by (auto simp: trimEnd_def dropWhile_append)
qed

lemma trimEnd_last: "s \<noteq> [] \<Longrightarrow> \<not> isSpace (last s) \<Longrightarrow> trimEnd s = s"
  by (cases s rule: rev_cases) (simp_all add: trimEnd_def)

lemma trimStart_hd: "s \<noteq> [] \<Longrightarrow> \<not> isSpace (hd s) \<Longrightarrow> trimStart (s @ t) = s @ t"
  by (cases s) (simp_all add: trimStart_def)

lemma trim_keeps_prefix:
  assumes "H \<noteq> []" "\<not> isSpace (hd H)" "\<not> isSpace (last H)"
  shows "prefix H (trim (H @ w))"
proof -
  have "trimEnd (H @ w) = H @ trimEnd w"
    using assms trimEnd_last [of H] by (simp add: trimEnd_append)
  then have "trim (H @ w) = H @ trimEnd w"
    using assms trimStart_hd [of H "trimEnd w"] by (simp add: trim_def)
  then show ?thesis by simp
qed

lemma trimEnd_decomp: "\<exists>sp. a = trimEnd a @ sp \<and> (\<forall>c \<in> set sp. isSpace c)"
proof -
  have "a = trimEnd a @ rev (takeWhile isSpace (rev a))"
    unfolding trimEnd_def by (metis rev_append rev_rev_ident takeWhile_dropWhile_id)
  moreover have "\<forall>c \<in> set (rev (takeWhile isSpace (rev a))). isSpace c"
    by (auto dest: set_takeWhileD)
  ultimately show ?thesis by blast
qed

lemma trimEnd_has_ink:
  assumes "\<exists>c \<in> set a. \<not> isSpace c"
  shows "\<exists>c \<in> set (trimEnd a). \<not> isSpace c"
proof -
  obtain sp where "a = trimEnd a @ sp" "\<forall>c \<in> set sp. isSpace c"
    using trimEnd_decomp by blast
  with assms show ?thesis by (metis Un_iff set_append)
qed

lemma trim_append_prefix:
  assumes "\<exists>c \<in> set a. \<not> isSpace c"
  shows "prefix (trim a) (trim (a @ b))"
proof (cases "trimEnd b = []")
  case True
  then show ?thesis by (simp add: trim_def trimEnd_append)
next
  case False
  obtain sp where a: "a = trimEnd a @ sp"
    using trimEnd_decomp by blast
  obtain c where c: "c \<in> set (trimEnd a)" "\<not> isSpace c"
    using trimEnd_has_ink [OF assms] by blast
  have "trim (a @ b) = trimStart (a @ trimEnd b)"
    using False by (simp add: trim_def trimEnd_append)
  also have "\<dots> = trimStart (trimEnd a @ (sp @ trimEnd b))"
    using a by (metis append.assoc)
  also have "\<dots> = trimStart (trimEnd a) @ (sp @ trimEnd b)"
    unfolding trimStart_def using c by (rule dropWhile_append1)
  finally show ?thesis by (simp add: trim_def)
qed

lemma trim_ends:
  assumes "trim a \<noteq> []"
  shows "\<not> isSpace (hd (trim a)) \<and> \<not> isSpace (last (trim a))"
proof -
  have h: "\<not> isSpace (hd (trim a))"
    using assms unfolding trim_def trimStart_def by (rule hd_dropWhile)
  have "trimEnd a \<noteq> []" using assms by (auto simp: trim_def trimStart_def)
  then have "rev (trimEnd a) \<noteq> []" by simp
  then have "\<not> isSpace (hd (rev (trimEnd a)))"
    unfolding trimEnd_def rev_rev_ident by (rule hd_dropWhile)
  then have l: "\<not> isSpace (last (trimEnd a))"
    using \<open>trimEnd a \<noteq> []\<close> by (simp add: hd_rev)
  have "suffix (trim a) (trimEnd a)"
    unfolding trim_def trimStart_def by (rule suffix_dropWhile)
  then obtain pre where "trimEnd a = pre @ trim a" by (auto simp: suffix_def)
  with assms l have "\<not> isSpace (last (trim a))" by (metis last_appendR)
  with h show ?thesis by simp
qed

lemma ink_of_normal:
  assumes "normalizeForMatch a \<noteq> []"
  shows "\<exists>c \<in> set a. \<not> isSpace c"
proof (rule ccontr)
  assume "\<not> (\<exists>c \<in> set a. \<not> isSpace c)"
  then have "\<forall>c \<in> set a. isSpace c" by simp
  from normalizeForMatch_leading_spaces [OF this, of "[]"] assms show False by simp
qed

lemma strip_append:
  "rev (dropWhile isTrailing (rev (H @ w))) =
     (if \<forall>c \<in> set w. isTrailing c then rev (dropWhile isTrailing (rev H))
      else H @ rev (dropWhile isTrailing (rev w)))"
  by (simp add: dropWhile_append)

text \<open>
  A head of the subject that holds no separator character, starts and ends with a
  character that is not white space and fits the maximum survives a cut: \<^verbatim>\<open>trimToMax\<close>
  returns a string that starts with the head, or with the head less its trailing hyphens
  and dashes.
\<close>

lemma trimToMax_anchor:
  assumes pre: "prefix H v"
    and len: "length H \<le> m"
    and clean: "\<forall>c \<in> set H. c \<notin> set separatorUnits"
    and ne: "H \<noteq> []"
    and hdH: "\<not> isSpace (hd H)"
    and lastH: "\<not> isSpace (last H)"
  shows "\<exists>H0. prefix H0 (trimToMax v m) \<and> normalizeForMatch H0 = normalizeForMatch H \<and>
              length H0 \<le> length H \<and> set H0 \<subseteq> set H \<and> (H0 \<noteq> [] \<longrightarrow> \<not> isSpace (last H0))"
proof (cases "m \<le> 0 \<or> length v \<le> m")
  case True
  with pre lastH show ?thesis by (auto simp: trimToMax_def)
next
  case False
  show ?thesis
  proof (cases "cutAtSeparator v m separators")
    case (Some t)
    from cutAtSeparator_origin [OF Some] obtain sep i where
      s: "sep \<in> set separators" "indexOf v sep = Some i" "t = trim (take i v)" by blast
    have "length H \<le> i"
      using pre clean lastH s(1,2) by (intro separator_behind_prefix) auto
    then obtain w where "take i v = H @ w"
      using pre by (auto simp: prefix_def)
    then have "prefix H (trim (take i v))"
      using trim_keeps_prefix [OF ne hdH lastH, of w] by simp
    with Some False s(3) lastH show ?thesis
      by (auto simp: trimToMax_def)
  next
    case None
    obtain w where w: "take m v = H @ w"
      using pre len by (auto simp: prefix_def)
    have r: "trimToMax v m = trim (rev (dropWhile isTrailing (rev (H @ w))))"
      using None False w by (simp add: trimToMax_def)
    show ?thesis
    proof (cases "\<forall>c \<in> set w. isTrailing c")
      case False
      then have "trimToMax v m = trim (H @ rev (dropWhile isTrailing (rev w)))"
        by (simp only: r strip_append if_False)
      then have "prefix H (trimToMax v m)"
        using trim_keeps_prefix [OF ne hdH lastH] by simp
      with lastH show ?thesis by auto
    next
      case True
      define H1 where "H1 = rev (dropWhile isTrailing (rev H))"
      have t: "trimToMax v m = trim H1"
        unfolding r strip_append H1_def using True by simp
      have n1: "normalizeForMatch H1 = normalizeForMatch H"
        unfolding H1_def by (rule normalizeForMatch_strip_trailing)
      have p1: "prefix H1 H"
        unfolding H1_def by (metis prefix_def rev_append rev_rev_ident takeWhile_dropWhile_id)
      have l1: "H1 \<noteq> [] \<Longrightarrow> \<not> isTrailing (last H1)"
      proof -
        assume "H1 \<noteq> []"
        then have "dropWhile isTrailing (rev H) \<noteq> []" by (simp add: H1_def)
        then have "\<not> isTrailing (hd (dropWhile isTrailing (rev H)))" by (rule hd_dropWhile)
        with \<open>H1 \<noteq> []\<close> show ?thesis by (simp add: H1_def last_rev)
      qed
      have sp: "isSpace c \<Longrightarrow> isTrailing c" for c by (simp add: isTrailing_def)
      show ?thesis
      proof (cases "H1 = []")
        case True
        then show ?thesis using n1 by (intro exI [of _ "[]"]) simp
      next
        case False
        from p1 False have "hd H1 = hd H" by (auto simp: prefix_def)
        with hdH have h: "\<not> isSpace (hd H1)" by simp
        from l1 [OF False] sp have l: "\<not> isSpace (last H1)" by blast
        have "prefix H1 (trim (H1 @ []))"
          using False h l by (rule trim_keeps_prefix)
        then have "prefix H1 (trimToMax v m)" by (simp add: t)
        moreover from p1 have "length H1 \<le> length H" by (rule prefix_length_le)
        moreover from p1 have "set H1 \<subseteq> set H" by (rule set_mono_prefix)
        ultimately show ?thesis using n1 l by blast
      qed
    qed
  qed
qed

lemma ensureSubjectLength2_keeps_head:
  assumes m: "m > 0"
    and pre: "prefix H D"
    and len: "length H \<le> m"
    and clean: "\<forall>c \<in> set H. c \<notin> set separatorUnits"
    and ne: "H \<noteq> []"
    and hdH: "\<not> isSpace (hd H)"
    and lastH: "\<not> isSpace (last H)"
  shows "includesStr (normalizeForMatch (ensureSubjectLength2 lg D diff toks minLen m))
           (normalizeForMatch H)"
proof -
  define candidate where "candidate = (if m > 0 \<and> length D > m then trimToMax D m else D)"
  have ct: "candidate = trimToMax D m"
    by (simp add: candidate_def trimToMax_def)
  obtain H0 where H0: "prefix H0 candidate" "normalizeForMatch H0 = normalizeForMatch H"
      "length H0 \<le> length H" "set H0 \<subseteq> set H" "H0 \<noteq> [] \<longrightarrow> \<not> isSpace (last H0)"
    unfolding ct using trimToMax_anchor [OF pre len clean ne hdH lastH] by blast
  then obtain r where r: "candidate = H0 @ r" by (auto simp: prefix_def)
  define P where "P = collapseSpaces H0"
  have nP: "normalizeForMatch P = normalizeForMatch H"
    by (simp add: P_def H0(2))
  have lenP: "length P \<le> m"
    using length_collapseSpaces [of H0] H0(3) len by (simp add: P_def)
  have cleanP: "\<forall>c \<in> set P. c \<notin> set separatorUnits"
  proof
    fix c assume "c \<in> set P"
    with collapseSpaces_set [of H0] have "c = 32 \<or> c \<in> set H0"
      unfolding P_def by blast
    then show "c \<notin> set separatorUnits"
    proof
      assume "c = 32"
      then show ?thesis by (simp add: separatorUnits_def)
    next
      assume "c \<in> set H0"
      with clean H0(4) show ?thesis by blast
    qed
  qed
  have lastP: "P \<noteq> [] \<Longrightarrow> \<not> isSpace (last P)"
    unfolding P_def by (rule collapseSpaces_last)
  define snippet where "snippet = tokenSnippetOf 4 toks"
  define appended where "appended = appendFragments candidate (detailsLead lg) (fragmentJoiner lg)
     snippet m [] (buildDetailFragments diff)"
  define E where "E = collapseSpaces (candidate @ detailsLead lg @ appended @ snippet)"
  define expanded where "expanded = (if appended \<noteq> [] then E else candidate)"
  have inC: "includesStr (normalizeForMatch candidate) (normalizeForMatch H)"
    using prefix_part [OF H0(1)] by (simp add: H0(2))
  have inE: "includesStr (normalizeForMatch E) (normalizeForMatch H)"
    unfolding E_def using prefix_part [of H0 "candidate @ detailsLead lg @ appended @ snippet"] r
    by (simp add: H0(2))
  have inExp: "includesStr (normalizeForMatch expanded) (normalizeForMatch H)"
    using inC inE by (simp add: expanded_def)
  have pE: "prefix P (collapseSpaces (expanded @ snippet))"
  proof (cases "appended \<noteq> []")
    case False
    then show ?thesis
      using collapseSpaces_prefix [of H0 "r @ snippet"] by (simp add: expanded_def P_def r)
  next
    case True
    have a: "prefix P E"
      unfolding P_def E_def r
      using collapseSpaces_prefix [of H0 "r @ detailsLead lg @ appended @ snippet"] by simp
    have "collapseSpaces E = E"
      unfolding E_def by (rule collapseSpaces_idem)
    with collapseSpaces_prefix [of E snippet]
    have b: "prefix E (collapseSpaces (E @ snippet))" by simp
    from a b have "prefix P (collapseSpaces (E @ snippet))"
      by (rule prefix_order.order_trans)
    with True show ?thesis by (simp add: expanded_def)
  qed
  have inCut: "includesStr (normalizeForMatch (trimToMax (collapseSpaces (expanded @ snippet)) m))
                 (normalizeForMatch H)"
    using trimToMax_keeps_prefix [OF pE lenP cleanP lastP] by (simp add: nP)
  have "ensureSubjectLength2 lg D diff toks minLen m \<in>
          {candidate, expanded, trimToMax (collapseSpaces (expanded @ snippet)) m}"
    using m
    by (simp add: ensureSubjectLength2_def Let_def candidate_def expanded_def E_def appended_def
          snippet_def)
  then consider "ensureSubjectLength2 lg D diff toks minLen m = candidate"
    | "ensureSubjectLength2 lg D diff toks minLen m = expanded"
    | "ensureSubjectLength2 lg D diff toks minLen m = trimToMax (collapseSpaces (expanded @ snippet)) m"
    by blast
  then show ?thesis
  proof cases
    case 1
    with inC show ?thesis by (simp only:)
  next
    case 2
    with inExp show ?thesis by (simp only:)
  next
    case 3
    with inCut show ?thesis by (simp only:)
  qed
qed

text \<open>The required tokens hold, for each of the three highest-ranked files, a token that is
  the base name up to case, and a token is matched when its normal form occurs in the
  subject.\<close>

lemma normalizeForMatch_cong:
  "toLowerCase x = toLowerCase y \<Longrightarrow> normalizeForMatch x = normalizeForMatch y"
  by (simp add: normalizeForMatch_def)

lemma dedupeTokens_represented:
  assumes "t \<in> set ts"
    and "\<forall>x \<in> set ts. toLowerCase x = toLowerCase t \<longrightarrow> length x > 1"
    and "toLowerCase t \<notin> set seen"
  shows "\<exists>x \<in> set (dedupeTokens seen ts). toLowerCase x = toLowerCase t"
  using assms
proof (induction ts arbitrary: seen)
  case Nil
  then show ?case by simp
next
  case (Cons y ys)
  show ?case
  proof (cases "toLowerCase y \<in> set seen")
    case True
    with Cons.prems have "t \<in> set ys" by auto
    with Cons.IH [of seen] Cons.prems True show ?thesis by (simp add: Let_def)
  next
    case False
    show ?thesis
    proof (cases "toLowerCase y = toLowerCase t")
      case True
      with Cons.prems have "length y > 1" by simp
      with True False show ?thesis by (simp add: Let_def)
    next
      case diff: False
      with Cons.prems have "t \<in> set ys" by auto
      moreover from diff Cons.prems have "toLowerCase t \<notin> set (seen @ [toLowerCase y])" by auto
      ultimately have "\<exists>x \<in> set (dedupeTokens (seen @ [toLowerCase y]) ys). toLowerCase x = toLowerCase t"
        using Cons.prems by (intro Cons.IH) auto
      with False show ?thesis by (auto simp: Let_def)
    qed
  qed
qed

lemma long_of_normal:
  assumes "3 \<le> length (normalizeForMatch b)" and "toLowerCase x = toLowerCase b"
  shows "length x > 1"
proof -
  from assms have "3 \<le> length (normalizeForMatch x)"
    using normalizeForMatch_cong [of x b] by simp
  with normalizeForMatch_short [of x] show ?thesis by (cases "length x \<le> 1") auto
qed

lemma fileTokens_base: "lastSegment (path f) \<noteq> [] \<Longrightarrow> lastSegment (path f) \<in> set (fileTokens f)"
  by (simp add: fileTokens_def lastSegment_def Let_def)

lemma requiredTokens_represented:
  assumes r: "f \<in> set (take 3 (rankFiles (files diff)))"
    and n: "3 \<le> length (normalizeForMatch (lastSegment (path f)))"
  shows "\<exists>x \<in> set (requiredTokensOf diff). toLowerCase x = toLowerCase (lastSegment (path f))"
proof -
  from n have "lastSegment (path f) \<noteq> []" by auto
  then have "lastSegment (path f) \<in> set (fileTokens f)" by (rule fileTokens_base)
  with r have "lastSegment (path f) \<in> set (concat (map fileTokens (take 3 (rankFiles (files diff)))))"
    by auto
  then show ?thesis
    unfolding requiredTokensOf_def buildRequiredTokens_def
    using long_of_normal [OF n] by (intro dedupeTokens_represented) auto
qed

lemma tokenMatched_raw:
  assumes "3 \<le> length (normalizeForMatch b)"
    and "toLowerCase x = toLowerCase b"
    and "includesStr (normalizeForMatch r) (normalizeForMatch b)"
  shows "tokenMatched r x"
proof -
  have "normalizeForMatch x = normalizeForMatch b"
    using assms(2) by (rule normalizeForMatch_cong)
  with assms(1,3) have "variantMatches (normalizeForMatch r) (trim x)"
    by (simp add: variantMatches_iff)
  then show ?thesis
    by (simp add: tokenMatched_def variantsOfToken_def Let_def matchForm_eq)
qed

lemma matched_by_two:
  assumes "x \<in> set tokens" "y \<in> set tokens" "x \<noteq> y"
    and "tokenMatched r x" "tokenMatched r y" and "n \<le> 2"
  shows "ok (matchRequiredTokens r tokens n)"
proof -
  have "{x, y} \<subseteq> {t \<in> set tokens. tokenMatched r t}" using assms by auto
  then have "card {x, y} \<le> card {t \<in> set tokens. tokenMatched r t}"
    by (intro card_mono) auto
  with assms(3) have "2 \<le> card {t \<in> set tokens. tokenMatched r t}" by simp
  with assms(6) show ?thesis by (simp add: ok_iff_card)
qed

lemma matched_by_one:
  assumes "x \<in> set tokens" "tokenMatched r x" and "n \<le> 1"
  shows "ok (matchRequiredTokens r tokens n)"
proof -
  have "{x} \<subseteq> {t \<in> set tokens. tokenMatched r t}" using assms by auto
  then have "card {x} \<le> card {t \<in> set tokens. tokenMatched r t}"
    by (intro card_mono) auto
  with assms(3) show ?thesis by (simp add: ok_iff_card)
qed

text \<open>What both variants need from the subject they return.\<close>

lemma subject_with_bases_ok:
  assumes fs: "files diff \<noteq> []"
    and b1: "3 \<le> length (normalizeForMatch (primaryBase diff))"
    and b2: "10 < length (files diff) \<Longrightarrow>
             3 \<le> length (normalizeForMatch (secondaryBase diff)) \<and>
             toLowerCase (secondaryBase diff) \<noteq> toLowerCase (primaryBase diff)"
    and in1: "includesStr (normalizeForMatch r) (normalizeForMatch (primaryBase diff))"
    and in2: "10 < length (files diff) \<Longrightarrow>
              includesStr (normalizeForMatch r) (normalizeForMatch (secondaryBase diff))"
  shows "ok (matchRequiredTokens r (requiredTokensOf diff) (requiredTokenCountOf diff))"
proof -
  from fs have ne: "rankFiles (files diff) \<noteq> []"
    by (metis length_rankFiles length_0_conv)
  then have "hd (rankFiles (files diff)) \<in> set (take 3 (rankFiles (files diff)))"
    by (cases "rankFiles (files diff)") simp_all
  from requiredTokens_represented [OF this b1 [unfolded primaryBase_def]]
  obtain x where x: "x \<in> set (requiredTokensOf diff)" "toLowerCase x = toLowerCase (primaryBase diff)"
    by (auto simp: primaryBase_def)
  have mx: "tokenMatched r x" using b1 x(2) in1 by (rule tokenMatched_raw)
  show ?thesis
  proof (cases "10 < length (files diff)")
    case False
    then have "requiredTokenCountOf diff \<le> 1" by (simp add: requiredTokenCountOf_def)
    with x(1) mx show ?thesis by (rule matched_by_one)
  next
    case True
    then have "1 < length (rankFiles (files diff))" by simp
    then have "rankFiles (files diff) ! 1 \<in> set (take 3 (rankFiles (files diff)))"
      by (metis One_nat_def in_set_conv_nth length_take min_less_iff_conj nth_take numeral_3_eq_3
          lessI less_Suc_eq)
    from requiredTokens_represented [OF this] b2 [OF True]
    obtain y where y: "y \<in> set (requiredTokensOf diff)" "toLowerCase y = toLowerCase (secondaryBase diff)"
      by (auto simp: secondaryBase_def)
    have my: "tokenMatched r y" using b2 [OF True] y(2) in2 [OF True] by (intro tokenMatched_raw) auto
    from x(2) y(2) b2 [OF True] have "x \<noteq> y" by auto
    moreover have "requiredTokenCountOf diff \<le> 2" by (simp add: requiredTokenCountOf_def)
    ultimately show ?thesis using x(1) y(1) mx my by (intro matched_by_two)
  qed
qed

lemma fragment_prefix:
  assumes "normalizeForMatch (lastSegment (path f)) \<noteq> []"
  shows "prefix (trim (lastSegment (path f))) (buildSubjectFragment f)"
proof -
  obtain d where d: "buildSubjectFragment f = trim (lastSegment (path f) @ [32] @ d)"
    using buildSubjectFragment_shape by blast
  from ink_of_normal [OF assms] show ?thesis
    unfolding d by (rule trim_append_prefix)
qed

lemma trim_normal_nonempty: "normalizeForMatch b \<noteq> [] \<Longrightarrow> trim b \<noteq> []"
  by (metis normalizeForMatch_Nil normalizeForMatch_trim)

lemma fragment_nonempty:
  assumes "normalizeForMatch (lastSegment (path f)) \<noteq> []"
  shows "buildSubjectFragment f \<noteq> []"
  using fragment_prefix [OF assms] trim_normal_nonempty [OF assms] by auto

lemma updateWord_start: "updateWord lg \<noteq> [] \<and> \<not> isSpace (hd (updateWord lg))"
  by (cases lg) (simp_all add: updateWord_def js_def isSpace_def)

lemma synthesize_draftOf:
  assumes fs: "files diff \<noteq> []"
    and b1: "3 \<le> length (normalizeForMatch (primaryBase diff))"
    and b2: "10 < length (files diff) \<Longrightarrow> 3 \<le> length (normalizeForMatch (secondaryBase diff))"
  shows "synthesize lg style diff toks (requiredTokenCountOf diff) = Draft (draftOf lg diff)"
proof -
  from fs have "rankFiles (files diff) \<noteq> []"
    by (metis length_rankFiles length_0_conv)
  then obtain primary rest where ranked: "rankFiles (files diff) = primary # rest"
    by (cases "rankFiles (files diff)") auto
  from b1 have "normalizeForMatch (lastSegment (path primary)) \<noteq> []"
    by (auto simp: primaryBase_def ranked)
  then have P: "buildSubjectFragment primary \<noteq> []" by (rule fragment_nonempty)
  show ?thesis
  proof (cases "10 < length (files diff)")
    case False
    then have "requiredTokenCountOf diff \<le> 1" by (simp add: requiredTokenCountOf_def)
    with ranked P False show ?thesis
      by (simp add: synthesize_draft draftOf_def)
  next
    case True
    then have "1 < length (rankFiles (files diff))" by simp
    with ranked obtain secondary more where rest: "rest = secondary # more"
      by (cases rest) auto
    from b2 [OF True] have "normalizeForMatch (lastSegment (path secondary)) \<noteq> []"
      by (auto simp: secondaryBase_def ranked rest)
    then have S: "buildSubjectFragment secondary \<noteq> []" by (rule fragment_nonempty)
    from True have "requiredTokenCountOf diff = 2" by (simp add: requiredTokenCountOf_def)
    with ranked rest P S True show ?thesis
      by (simp add: synthesize_def Let_def draftOf_def)
  qed
qed

lemma subjectHead_props:
  assumes fs: "files diff \<noteq> []"
    and b1: "3 \<le> length (normalizeForMatch (primaryBase diff))"
    and b2: "10 < length (files diff) \<Longrightarrow> 3 \<le> length (normalizeForMatch (secondaryBase diff))"
  shows "prefix (subjectHead lg diff) (draftOf lg diff)"
    and "subjectHead lg diff \<noteq> []"
    and "\<not> isSpace (hd (subjectHead lg diff))"
    and "\<not> isSpace (last (subjectHead lg diff))"
    and "includesStr (normalizeForMatch (subjectHead lg diff)) (normalizeForMatch (primaryBase diff))"
    and "10 < length (files diff) \<Longrightarrow>
         includesStr (normalizeForMatch (subjectHead lg diff)) (normalizeForMatch (secondaryBase diff))"
proof -
  let ?P = "buildSubjectFragment (hd (rankFiles (files diff)))"
  let ?S = "buildSubjectFragment (rankFiles (files diff) ! 1)"
  from b1 have n1: "normalizeForMatch (primaryBase diff) \<noteq> []" by auto
  then have t1: "trim (primaryBase diff) \<noteq> []" by (rule trim_normal_nonempty)
  have p1: "prefix (trim (primaryBase diff)) ?P"
    using n1 unfolding primaryBase_def by (rule fragment_prefix)
  have u: "updateWord lg \<noteq> []" "\<not> isSpace (hd (updateWord lg))"
    using updateWord_start by auto
  show "subjectHead lg diff \<noteq> []" using u by (simp add: subjectHead_def)
  show "\<not> isSpace (hd (subjectHead lg diff))" using u by (simp add: subjectHead_def)
  show "prefix (subjectHead lg diff) (draftOf lg diff)"
  proof (cases "10 < length (files diff)")
    case False
    with p1 show ?thesis by (simp add: subjectHead_def draftOf_def)
  next
    case True
    from b2 [OF True] have "normalizeForMatch (secondaryBase diff) \<noteq> []" by auto
    then have "prefix (trim (secondaryBase diff)) ?S"
      unfolding secondaryBase_def by (rule fragment_prefix)
    with True show ?thesis by (simp add: subjectHead_def draftOf_def)
  qed
  show "\<not> isSpace (last (subjectHead lg diff))"
  proof (cases "10 < length (files diff)")
    case False
    with t1 trim_ends [OF t1] show ?thesis by (simp add: subjectHead_def)
  next
    case True
    from b2 [OF True] have "normalizeForMatch (secondaryBase diff) \<noteq> []" by auto
    then have t2: "trim (secondaryBase diff) \<noteq> []" by (rule trim_normal_nonempty)
    with True trim_ends [OF t2] show ?thesis by (simp add: subjectHead_def)
  qed
  have fb: "includesStr (normalizeForMatch ?P) (normalizeForMatch (primaryBase diff))"
    unfolding primaryBase_def by (rule fragment_contains_base)
  show "includesStr (normalizeForMatch (subjectHead lg diff)) (normalizeForMatch (primaryBase diff))"
  proof (cases "10 < length (files diff)")
    case False
    then show ?thesis
      using normalizeForMatch_part [of "updateWord lg" "trim (primaryBase diff)" "[]"]
      by (simp add: subjectHead_def)
  next
    case True
    have "includesStr (normalizeForMatch (subjectHead lg diff)) (normalizeForMatch ?P)"
      using True normalizeForMatch_part [of "updateWord lg" ?P "andWord lg @ trim (secondaryBase diff)"]
      by (simp add: subjectHead_def)
    then show ?thesis using fb by (rule includesStr_trans)
  qed
  show "includesStr (normalizeForMatch (subjectHead lg diff)) (normalizeForMatch (secondaryBase diff))"
    if "10 < length (files diff)"
    using that normalizeForMatch_part [of "updateWord lg @ ?P @ andWord lg" "trim (secondaryBase diff)" "[]"]
    by (simp add: subjectHead_def)
qed

lemma buildSpecificSubject1_ok:
  assumes fs: "files diff \<noteq> []"
    and b1: "3 \<le> length (normalizeForMatch (primaryBase diff))"
    and b2: "10 < length (files diff) \<Longrightarrow>
             3 \<le> length (normalizeForMatch (secondaryBase diff)) \<and>
             toLowerCase (secondaryBase diff) \<noteq> toLowerCase (primaryBase diff)"
  shows "ok (matchRequiredTokens
           (buildSpecificSubject1 lg style diff (requiredTokensOf diff) (requiredTokenCountOf diff) minLen)
           (requiredTokensOf diff) (requiredTokenCountOf diff))"
proof -
  from b2 have b2': "10 < length (files diff) \<Longrightarrow> 3 \<le> length (normalizeForMatch (secondaryBase diff))"
    by simp
  let ?draft = "draftOf lg diff"
  let ?inner = "if minLen > 0 then ensureSubjectLength1 lg ?draft diff (requiredTokensOf diff) minLen
                else ?draft"
  have r: "buildSpecificSubject1 lg style diff (requiredTokensOf diff) (requiredTokenCountOf diff) minLen =
           applySubjectStyle lg style ?inner"
    by (simp add: buildSpecificSubject1_def synthesize_draftOf [OF fs b1 b2'])
  have "includesStr (normalizeForMatch ?inner) (normalizeForMatch ?draft)"
    using ensureSubjectLength1_keeps [of lg ?draft diff "requiredTokensOf diff" minLen]
    by (simp add: includesStr_def)
  with applySubjectStyle_keeps
  have "includesStr (normalizeForMatch (applySubjectStyle lg style ?inner)) (normalizeForMatch ?draft)"
    by (rule includesStr_trans)
  moreover have "includesStr (normalizeForMatch ?draft) (normalizeForMatch (subjectHead lg diff))"
    using subjectHead_props(1) [OF fs b1 b2'] by (rule prefix_part)
  ultimately have h: "includesStr (normalizeForMatch (applySubjectStyle lg style ?inner))
                        (normalizeForMatch (subjectHead lg diff))"
    by (rule includesStr_trans)
  show ?thesis
    unfolding r
  proof (rule subject_with_bases_ok [OF fs b1 b2])
    show "includesStr (normalizeForMatch (applySubjectStyle lg style ?inner))
            (normalizeForMatch (primaryBase diff))"
      using h subjectHead_props(5) [OF fs b1 b2'] by (rule includesStr_trans)
    show "includesStr (normalizeForMatch (applySubjectStyle lg style ?inner))
            (normalizeForMatch (secondaryBase diff))" if "10 < length (files diff)"
      using h subjectHead_props(6) [OF fs b1 b2' that] by (rule includesStr_trans)
  qed
qed

lemma buildSpecificSubject2_ok:
  assumes fs: "files diff \<noteq> []"
    and b1: "3 \<le> length (normalizeForMatch (primaryBase diff))"
    and b2: "10 < length (files diff) \<Longrightarrow>
             3 \<le> length (normalizeForMatch (secondaryBase diff)) \<and>
             toLowerCase (secondaryBase diff) \<noteq> toLowerCase (primaryBase diff)"
    and m: "m > 0"
    and len: "length (subjectHead lg diff) \<le> m"
    and clean: "list_all (\<lambda>c. c \<notin> set separatorUnits) (subjectHead lg diff)"
  shows "ok (matchRequiredTokens
           (buildSpecificSubject2 lg style diff (requiredTokensOf diff) (requiredTokenCountOf diff) minLen m)
           (requiredTokensOf diff) (requiredTokenCountOf diff))"
proof -
  from b2 have b2': "10 < length (files diff) \<Longrightarrow> 3 \<le> length (normalizeForMatch (secondaryBase diff))"
    by simp
  let ?draft = "draftOf lg diff"
  let ?inner = "ensureSubjectLength2 lg ?draft diff (requiredTokensOf diff) minLen m"
  have r: "buildSpecificSubject2 lg style diff (requiredTokensOf diff) (requiredTokenCountOf diff) minLen m =
           applySubjectStyle lg style ?inner"
    using m by (simp add: buildSpecificSubject2_def synthesize_draftOf [OF fs b1 b2'])
  have cl: "\<forall>c \<in> set (subjectHead lg diff). c \<notin> set separatorUnits"
    using clean by (simp add: list_all_iff)
  have "includesStr (normalizeForMatch ?inner) (normalizeForMatch (subjectHead lg diff))"
    by (rule ensureSubjectLength2_keeps_head
          [OF m subjectHead_props(1) [OF fs b1 b2'] len cl subjectHead_props(2) [OF fs b1 b2']
              subjectHead_props(3) [OF fs b1 b2'] subjectHead_props(4) [OF fs b1 b2']])
  with applySubjectStyle_keeps
  have h: "includesStr (normalizeForMatch (applySubjectStyle lg style ?inner))
             (normalizeForMatch (subjectHead lg diff))"
    by (rule includesStr_trans)
  show ?thesis
    unfolding r
  proof (rule subject_with_bases_ok [OF fs b1 b2])
    show "includesStr (normalizeForMatch (applySubjectStyle lg style ?inner))
            (normalizeForMatch (primaryBase diff))"
      using h subjectHead_props(5) [OF fs b1 b2'] by (rule includesStr_trans)
    show "includesStr (normalizeForMatch (applySubjectStyle lg style ?inner))
            (normalizeForMatch (secondaryBase diff))" if "10 < length (files diff)"
      using h subjectHead_props(6) [OF fs b1 b2' that] by (rule includesStr_trans)
  qed
qed

text \<open>
  C1, as the claim states it, fails. A token matches only through a variant whose normal
  form has at least three characters, and with more than ten files two different tokens
  have to match.

  \<^item> \<open>twoLetterExample\<close> has the single file \<^verbatim>\<open>sh\<close>: the only token is \<^verbatim>\<open>sh\<close>, no subject
    can match it, and the subjects the two variants synthesize are rejected. The same
    happens for \<open>chineseNameExample\<close>, whose file name has the normal form \<^verbatim>\<open>md\<close>.
  \<^item> \<open>indexFilesExample\<close> has eleven files named \<^verbatim>\<open>index.ts\<close>: the two base names are one
    token, the other tokens have two letters, and both variants return a subject that
    matches one token where two are required. In \<open>shortSecondExample\<close> the second base
    name is \<^verbatim>\<open>go\<close>.
  \<^item> In the variant with the bounds 80 and 120 the subject is cut where a separator
    stands. In \<open>commaNameExample\<close> the comma is part of the file name and the result is
    \<^verbatim>\<open>update parse\<close>, and so with the em dash of \<open>dashNameExample\<close>; in
    \<open>commaHighlightExample\<close> the comma is part of the highlight of the first
    file, and the second base name is cut off. In \<open>longNameExample\<close> the verb and the base
    name have 131 characters and the cut at 120 goes through the name.
\<close>

theorem buildSpecificSubject_counterexample:
  "requiredTokensOf twoLetterExample = [js ''sh''] \<and>
   requiredTokenCountOf twoLetterExample = 1 \<and>
   minSubjectLengthOf twoLetterExample = 0 \<and>
   buildSpecificSubject1 En Imperative twoLetterExample [js ''sh''] 1 0 = js ''update sh'' \<and>
   ok (matchRequiredTokens (js ''update sh'') [js ''sh''] 1) = False \<and>
   buildSpecificSubject2 En Imperative twoLetterExample [js ''sh''] 1 80 120 =
     js ''update sh'' @ [32, 8212, 32] @ js ''sh sh'' \<and>
   ok (matchRequiredTokens (js ''update sh'' @ [32, 8212, 32] @ js ''sh sh'') [js ''sh''] 1) = False \<and>
   requiredTokensOf chineseNameExample = [[35828, 26126] @ js ''.md''] \<and>
   buildSpecificSubject1 Zh Imperative chineseNameExample (requiredTokensOf chineseNameExample) 1 0 =
     [26356, 26032, 32, 35828, 26126] @ js ''.md docs'' \<and>
   ok (matchRequiredTokens ([26356, 26032, 32, 35828, 26126] @ js ''.md docs'')
         (requiredTokensOf chineseNameExample) 1) = False \<and>
   length (files indexFilesExample) = 11 \<and>
   requiredTokensOf indexFilesExample = [js ''index.ts'', js ''ui'', js ''db'', js ''io''] \<and>
   requiredTokenCountOf indexFilesExample = 2 \<and>
   minSubjectLengthOf indexFilesExample = 300 \<and>
   toLowerCase (secondaryBase indexFilesExample) = toLowerCase (primaryBase indexFilesExample) \<and>
   ok (matchRequiredTokens
         (buildSpecificSubject1 En Imperative indexFilesExample (requiredTokensOf indexFilesExample)
        (requiredTokenCountOf indexFilesExample) 300)
     (requiredTokensOf indexFilesExample) (requiredTokenCountOf indexFilesExample)) = False \<and>
   ok (matchRequiredTokens
         (buildSpecificSubject2 En Imperative indexFilesExample (requiredTokensOf indexFilesExample)
        (requiredTokenCountOf indexFilesExample) 80 120)
     (requiredTokensOf indexFilesExample) (requiredTokenCountOf indexFilesExample)) = False \<and>
   length (files shortSecondExample) = 11 \<and>
   normalizeForMatch (primaryBase shortSecondExample) = js ''login ts'' \<and>
   normalizeForMatch (secondaryBase shortSecondExample) = js ''go'' \<and>
   ok (matchRequiredTokens
         (buildSpecificSubject1 En Imperative shortSecondExample (requiredTokensOf shortSecondExample)
        (requiredTokenCountOf shortSecondExample) 300)
     (requiredTokensOf shortSecondExample) (requiredTokenCountOf shortSecondExample)) = False \<and>
   ok (matchRequiredTokens
         (buildSpecificSubject2 En Imperative shortSecondExample (requiredTokensOf shortSecondExample)
        (requiredTokenCountOf shortSecondExample) 80 120)
     (requiredTokensOf shortSecondExample) (requiredTokenCountOf shortSecondExample)) = False \<and>
   subjectHead En commaNameExample = js ''update parse,print_pipeline_for_template_literals.ts'' \<and>
   buildSpecificSubject2 En Imperative commaNameExample (requiredTokensOf commaNameExample)
     (requiredTokenCountOf commaNameExample) 80 120 = js ''update parse'' \<and>
   ok (matchRequiredTokens
         (buildSpecificSubject2 En Imperative commaNameExample (requiredTokensOf commaNameExample)
        (requiredTokenCountOf commaNameExample) 80 120)
     (requiredTokensOf commaNameExample) (requiredTokenCountOf commaNameExample)) = False \<and>
   buildSpecificSubject2 En Imperative dashNameExample (requiredTokensOf dashNameExample)
     (requiredTokenCountOf dashNameExample) 80 120 = js ''update parse'' \<and>
   ok (matchRequiredTokens
         (buildSpecificSubject2 En Imperative dashNameExample (requiredTokensOf dashNameExample)
            (requiredTokenCountOf dashNameExample) 80 120)
     (requiredTokensOf dashNameExample) (requiredTokenCountOf dashNameExample)) = False \<and>
   length (files commaHighlightExample) = 11 \<and>
   subjectHead En commaHighlightExample =
     js ''update login.ts rework login(user, token) flow and session.ts'' \<and>
   buildSpecificSubject2 En Imperative commaHighlightExample (requiredTokensOf commaHighlightExample)
     (requiredTokenCountOf commaHighlightExample) 80 120 = js ''update login.ts rework login(user'' \<and>
   ok (matchRequiredTokens
         (buildSpecificSubject2 En Imperative commaHighlightExample (requiredTokensOf commaHighlightExample)
        (requiredTokenCountOf commaHighlightExample) 80 120)
     (requiredTokensOf commaHighlightExample) (requiredTokenCountOf commaHighlightExample)) = False \<and>
   length (primaryBase longNameExample) = 124 \<and>
   length (subjectHead En longNameExample) = 131 \<and>
   length (buildSpecificSubject2 En Imperative longNameExample (requiredTokensOf longNameExample)
     (requiredTokenCountOf longNameExample) 80 120) = 120 \<and>
   ok (matchRequiredTokens
         (buildSpecificSubject2 En Imperative longNameExample (requiredTokensOf longNameExample)
        (requiredTokenCountOf longNameExample) 80 120)
     (requiredTokensOf longNameExample) (requiredTokenCountOf longNameExample)) = False"
  by code_simp

text \<open>
  C1, amended. Let the diff have at least one file, let the base name of the highest-ranked
  file have a normal form of at least three characters and, when the diff has more than
  ten files, let the base name of the second file have one too and differ from the first
  base name by more than case. Then, for the token list and count derived from that diff,
  the subject that \<^verbatim>\<open>buildSpecificSubject\<close> returns passes \<^verbatim>\<open>matchRequiredTokens\<close>: in the
  single-line variant for every minimum length, and in the variant with the bounds 80 and
  120 whenever the head of the subject, which ends with the last base name that is needed,
  has at most 120 characters and holds none of the separator characters at which
  \<^verbatim>\<open>trimToMax\<close> cuts.
\<close>

theorem buildSpecificSubject_passes_validator:
  assumes "files diff \<noteq> []"
    and "3 \<le> length (normalizeForMatch (primaryBase diff))"
    and "10 < length (files diff) \<Longrightarrow>
           3 \<le> length (normalizeForMatch (secondaryBase diff)) \<and>
           toLowerCase (secondaryBase diff) \<noteq> toLowerCase (primaryBase diff)"
  shows "ok (matchRequiredTokens
           (buildSpecificSubject1 lg style diff (requiredTokensOf diff) (requiredTokenCountOf diff)
              minLen)
           (requiredTokensOf diff) (requiredTokenCountOf diff)) \<and>
         (length (subjectHead lg diff) \<le> 120 \<and>
          list_all (\<lambda>c. c \<notin> set separatorUnits) (subjectHead lg diff) \<longrightarrow>
          ok (matchRequiredTokens
                (buildSpecificSubject2 lg style diff (requiredTokensOf diff)
                   (requiredTokenCountOf diff) 80 120)
                (requiredTokensOf diff) (requiredTokenCountOf diff)))"
proof (intro conjI impI)
  show "ok (matchRequiredTokens
           (buildSpecificSubject1 lg style diff (requiredTokensOf diff) (requiredTokenCountOf diff)
              minLen)
           (requiredTokensOf diff) (requiredTokenCountOf diff))"
    using assms by (rule buildSpecificSubject1_ok)
next
  assume "length (subjectHead lg diff) \<le> 120 \<and>
          list_all (\<lambda>c. c \<notin> set separatorUnits) (subjectHead lg diff)"
  then show "ok (matchRequiredTokens
                (buildSpecificSubject2 lg style diff (requiredTokensOf diff)
                   (requiredTokenCountOf diff) 80 120)
                (requiredTokensOf diff) (requiredTokenCountOf diff))"
    using assms by (intro buildSpecificSubject2_ok) simp_all
qed

text \<open>
  The amended claim at work, in sentence style. In \<open>loginExample\<close> the highest-ranked file
  is the second of two and one token is required; in \<open>sessionExample\<close> it is the third of
  eleven and two tokens are required.
\<close>

theorem buildSpecificSubject_passes_validator_witness:
  "length (files loginExample) = 2 \<and>
   normalizeForMatch (primaryBase loginExample) = js ''login ts'' \<and>
   subjectHead En loginExample = js ''update Login.ts'' \<and>
   ok (matchRequiredTokens
         (buildSpecificSubject1 En Sentence loginExample (requiredTokensOf loginExample)
        (requiredTokenCountOf loginExample) 300)
     (requiredTokensOf loginExample) (requiredTokenCountOf loginExample)) \<and>
   ok (matchRequiredTokens
         (buildSpecificSubject2 En Sentence loginExample (requiredTokensOf loginExample)
        (requiredTokenCountOf loginExample) 80 120)
     (requiredTokensOf loginExample) (requiredTokenCountOf loginExample)) \<and>
   length (files sessionExample) = 11 \<and>
   normalizeForMatch (primaryBase sessionExample) = js ''login ts'' \<and>
   normalizeForMatch (secondaryBase sessionExample) = js ''session ts'' \<and>
   toLowerCase (secondaryBase sessionExample) = js ''session.ts'' \<and>
   toLowerCase (primaryBase sessionExample) = js ''login.ts'' \<and>
   subjectHead En sessionExample =
     js ''update Login.ts validateToken class LoginService and session.ts'' \<and>
   ok (matchRequiredTokens
         (buildSpecificSubject1 En Sentence sessionExample (requiredTokensOf sessionExample)
        (requiredTokenCountOf sessionExample) 300)
     (requiredTokensOf sessionExample) (requiredTokenCountOf sessionExample)) \<and>
   ok (matchRequiredTokens
         (buildSpecificSubject2 En Sentence sessionExample (requiredTokensOf sessionExample)
        (requiredTokenCountOf sessionExample) 80 120)
     (requiredTokensOf sessionExample) (requiredTokenCountOf sessionExample))"
proof -
  have l1: "length (files loginExample) = 2" by code_simp
  have f1: "files loginExample \<noteq> []" by code_simp
  have n1: "normalizeForMatch (primaryBase loginExample) = js ''login ts''" by code_simp
  have h1: "subjectHead En loginExample = js ''update Login.ts''" by code_simp
  have b1: "3 \<le> length (normalizeForMatch (primaryBase loginExample))"
    unfolding n1 by (simp add: js_def)
  have s1: "3 \<le> length (normalizeForMatch (secondaryBase loginExample)) \<and>
            toLowerCase (secondaryBase loginExample) \<noteq> toLowerCase (primaryBase loginExample)"
    if "10 < length (files loginExample)"
    using that l1 by simp
  have c1: "length (subjectHead En loginExample) \<le> 120 \<and>
            list_all (\<lambda>c. c \<notin> set separatorUnits) (subjectHead En loginExample)"
    unfolding h1 by code_simp
  have l2: "length (files sessionExample) = 11" by code_simp
  have f2: "files sessionExample \<noteq> []" by code_simp
  have n2: "normalizeForMatch (primaryBase sessionExample) = js ''login ts''" by code_simp
  have m2: "normalizeForMatch (secondaryBase sessionExample) = js ''session ts''" by code_simp
  have t2: "toLowerCase (secondaryBase sessionExample) = js ''session.ts''" by code_simp
  have u2: "toLowerCase (primaryBase sessionExample) = js ''login.ts''" by code_simp
  have h2: "subjectHead En sessionExample =
     js ''update Login.ts validateToken class LoginService and session.ts''" by code_simp
  have b2: "3 \<le> length (normalizeForMatch (primaryBase sessionExample))"
    unfolding n2 by (simp add: js_def)
  have s2: "3 \<le> length (normalizeForMatch (secondaryBase sessionExample)) \<and>
            toLowerCase (secondaryBase sessionExample) \<noteq> toLowerCase (primaryBase sessionExample)"
    unfolding m2 t2 u2 by (simp add: js_def)
  have c2: "length (subjectHead En sessionExample) \<le> 120 \<and>
            list_all (\<lambda>c. c \<notin> set separatorUnits) (subjectHead En sessionExample)"
    unfolding h2 by code_simp
  from buildSpecificSubject_passes_validator [OF f1 b1 s1, of En Sentence 300] c1
  have r1: "ok (matchRequiredTokens
         (buildSpecificSubject1 En Sentence loginExample (requiredTokensOf loginExample)
        (requiredTokenCountOf loginExample) 300)
     (requiredTokensOf loginExample) (requiredTokenCountOf loginExample)) \<and>
   ok (matchRequiredTokens
         (buildSpecificSubject2 En Sentence loginExample (requiredTokensOf loginExample)
        (requiredTokenCountOf loginExample) 80 120)
     (requiredTokensOf loginExample) (requiredTokenCountOf loginExample))"
    by blast
  from buildSpecificSubject_passes_validator [OF f2 b2 s2, of En Sentence 300] c2
  have r2: "ok (matchRequiredTokens
         (buildSpecificSubject1 En Sentence sessionExample (requiredTokensOf sessionExample)
        (requiredTokenCountOf sessionExample) 300)
     (requiredTokensOf sessionExample) (requiredTokenCountOf sessionExample)) \<and>
   ok (matchRequiredTokens
         (buildSpecificSubject2 En Sentence sessionExample (requiredTokensOf sessionExample)
        (requiredTokenCountOf sessionExample) 80 120)
     (requiredTokensOf sessionExample) (requiredTokenCountOf sessionExample))"
    by blast
  from l1 n1 h1 r1 l2 n2 m2 t2 u2 h2 r2 show ?thesis by simp
qed


end
